theory Spec2Isabelle
  imports Main "HOL-Library.Word"
begin

unbundle bit_operations_syntax

section \<open>afl-showmap: run a program, display its trace bitmap\<close>

text \<open>
  A shallow embedding of \<^verbatim>\<open>afl-showmap.c\<close>. The trace bitmap is a region of bytes; a
  pointer into it is an offset from \<^verbatim>\<open>trace_bits\<close>. Every read and write checks that
  the offset lies inside the region, and a function that leaves the region has the value
  \<open>None\<close>.

  \<^verbatim>\<open>MAP_SIZE\<close> is a macro of \<^verbatim>\<open>config.h\<close>, which is not among the sources. It is a
  parameter of every function that uses it. The source stores it in \<^verbatim>\<open>u32\<close> counters
  (\<^verbatim>\<open>u32 i = MAP_SIZE\<close>), so the parameter is a 32-bit word.
\<close>

type_synonym u8 = "8 word"
type_synonym u32 = "32 word"
type_synonym s32 = "32 word"

subsection \<open>Classifying tuple counts\<close>

text \<open>
  The \<^verbatim>\<open>switch (*mem)\<close> of \<^verbatim>\<open>classify_counts\<close>: six cases with ranges, no default, so a
  value that matches no case is left as it is.
\<close>

definition classify_byte :: "u8 \<Rightarrow> u8" where
  "classify_byte v =
    (if v = 3 then push_bit 2 1
     else if 4 \<le> v \<and> v \<le> 7 then push_bit 3 1
     else if 8 \<le> v \<and> v \<le> 15 then push_bit 4 1
     else if 16 \<le> v \<and> v \<le> 31 then push_bit 5 1
     else if 32 \<le> v \<and> v \<le> 127 then push_bit 6 1
     else if 128 \<le> v \<and> v \<le> 255 then push_bit 7 1
     else v)"

text \<open>
  \<^verbatim>\<open>while (i--) { switch (*mem) ...; mem++; }\<close>: \<open>i\<close> counts the entries left, \<open>p\<close> is the
  offset of \<^verbatim>\<open>mem\<close>.
\<close>

fun classify_loop :: "nat \<Rightarrow> nat \<Rightarrow> u8 list \<Rightarrow> u8 list option" where
  "classify_loop 0 p mem = Some mem"
| "classify_loop (Suc i) p mem =
     (if p < length mem then classify_loop i (Suc p) (mem[p := classify_byte (mem ! p)])
      else None)"

definition classify_counts :: "u32 \<Rightarrow> u8 list \<Rightarrow> u8 list option" where
  "classify_counts MAP_SIZE mem = classify_loop (unat MAP_SIZE) 0 mem"

subsection \<open>Counting the bits set in the bitmap\<close>

text \<open>
  \<^verbatim>\<open>count_bits\<close> reads the bitmap through a \<^verbatim>\<open>u32*\<close>. The value of \<^verbatim>\<open>*(ptr++)\<close>
  depends on the byte order of the machine, which is a parameter.
  \<open>word_of_bytes b0 b1 b2 b3\<close> is the word whose least significant byte is \<open>b0\<close>.
\<close>

datatype endianness = Little_endian | Big_endian

definition word_of_bytes :: "u8 \<Rightarrow> u8 \<Rightarrow> u8 \<Rightarrow> u8 \<Rightarrow> u32" where
  "word_of_bytes b0 b1 b2 b3 =
     ucast b0 + push_bit 8 (ucast b1) + push_bit 16 (ucast b2) + push_bit 24 (ucast b3)"

definition load_u32 :: "endianness \<Rightarrow> u8 list \<Rightarrow> nat \<Rightarrow> u32 option" where
  "load_u32 e mem p =
     (if p + 3 < length mem
      then Some (case e of
             Little_endian \<Rightarrow> word_of_bytes (mem ! p) (mem ! (p + 1)) (mem ! (p + 2)) (mem ! (p + 3))
           | Big_endian \<Rightarrow> word_of_bytes (mem ! (p + 3)) (mem ! (p + 2)) (mem ! (p + 1)) (mem ! p))
      else None)"

text \<open>
  The three statements of the loop body that turn \<open>v\<close> into the number added to
  \<^verbatim>\<open>ret\<close>. All arithmetic is on \<^verbatim>\<open>u32\<close> and wraps.
\<close>

definition popcount_word :: "u32 \<Rightarrow> u32" where
  "popcount_word v0 =
     (let v1 = v0 - (drop_bit 1 v0 AND 0x55555555);
          v2 = (v1 AND 0x33333333) + (drop_bit 2 v1 AND 0x33333333)
      in drop_bit 24 (((v2 + drop_bit 4 v2) AND 0xF0F0F0F) * 0x1010101))"

text \<open>
  \<^verbatim>\<open>while (i--) { u32 v = *(ptr++); ...; ret += ...; }\<close>: \<open>i\<close> counts the words left,
  \<open>p\<close> is the byte offset of \<^verbatim>\<open>ptr\<close>.
\<close>

fun count_loop :: "endianness \<Rightarrow> nat \<Rightarrow> nat \<Rightarrow> u32 \<Rightarrow> u8 list \<Rightarrow> u32 option" where
  "count_loop e 0 p ret mem = Some ret"
| "count_loop e (Suc i) p ret mem =
     (case load_u32 e mem p of
        None \<Rightarrow> None
      | Some v \<Rightarrow> count_loop e i (p + 4) (ret + popcount_word v) mem)"

definition count_bits :: "endianness \<Rightarrow> u32 \<Rightarrow> u8 list \<Rightarrow> u32 option" where
  "count_bits e MAP_SIZE mem = count_loop e (unat (drop_bit 2 MAP_SIZE)) 0 0 mem"

subsection \<open>Messages\<close>

text \<open>
  \<^verbatim>\<open>SAYF\<close> is a macro of \<^verbatim>\<open>debug.h\<close>, which is not among the sources; it prints a
  formatted message. The texts of the banners depend on further macros of \<^verbatim>\<open>debug.h\<close> and
  \<^verbatim>\<open>config.h\<close> (colours, \<^verbatim>\<open>VERSION\<close>) and on the build date, so the model keeps which
  message a call printed and its arguments. A tuple line is kept as the text that the
  format \<^verbatim>\<open>"%05u/%u\n"\<close> produces.
\<close>

datatype said =
    Version_banner
  | Output_begins
  | Output_ends
  | Killed_by_signal nat
  | Tuples_recorded
  | Usage_text string
  | Tuple_line string

text \<open>
  The conversions of \<^verbatim>\<open>printf\<close>: \<^verbatim>\<open>%u\<close> writes the decimal digits of an unsigned number,
  \<^verbatim>\<open>%05u\<close> pads them with zeros on the left to a width of at least 5.
\<close>

definition digit_char :: "nat \<Rightarrow> char" where
  "digit_char d = ''0123456789'' ! d"

fun dec :: "nat \<Rightarrow> string" where
  "dec n = (if n < 10 then [digit_char n] else dec (n div 10) @ [digit_char (n mod 10)])"

declare dec.simps [simp del]

definition fmt_u :: "nat \<Rightarrow> string" where
  "fmt_u n = dec n"

definition fmt_05u :: "nat \<Rightarrow> string" where
  "fmt_05u n = replicate (5 - length (dec n)) CHR ''0'' @ dec n"

definition tuple_line :: "nat \<Rightarrow> u8 \<Rightarrow> string" where
  "tuple_line i v = fmt_05u i @ ''/'' @ fmt_u (unat v) @ [CHR 0x0A]"

subsection \<open>Showing the recorded tuples\<close>

text \<open>
  \<^verbatim>\<open>for (i = 0; i < MAP_SIZE; i++) { if (*current) SAYF(...); current++; }\<close>: the offset of
  \<^verbatim>\<open>current\<close> is \<open>i\<close>; \<open>out\<close> is what has been printed so far.
\<close>

function show_loop :: "nat \<Rightarrow> nat \<Rightarrow> u8 list \<Rightarrow> said list \<Rightarrow> said list option" where
  "show_loop n i mem out =
     (if i < n then
        (if i < length mem
         then show_loop n (Suc i) mem
                (if mem ! i \<noteq> 0 then out @ [Tuple_line (tuple_line i (mem ! i))] else out)
         else None)
      else Some out)"
  by pat_completeness auto
termination
  by (relation "measure (\<lambda>(n, i, mem, out). n - i)") auto

declare show_loop.simps [simp del]

text \<open>
  \<^verbatim>\<open>show_tuples\<close> classifies the bitmap in place and prints it; the result is the bitmap
  as it is left and the output.
\<close>

definition show_tuples :: "u32 \<Rightarrow> u8 list \<Rightarrow> said list \<Rightarrow> (u8 list \<times> said list) option" where
  "show_tuples MAP_SIZE bitmap out =
     (case classify_counts MAP_SIZE bitmap of
        None \<Rightarrow> None
      | Some mem \<Rightarrow>
          (case show_loop (unat MAP_SIZE) 0 mem out of
             None \<Rightarrow> None
           | Some out' \<Rightarrow> Some (mem, out')))"

text \<open>The tuple report: the tuple lines of an output, in the order printed.\<close>

fun tuple_report :: "said list \<Rightarrow> string list" where
  "tuple_report [] = []"
| "tuple_report (Tuple_line t # xs) = t # tuple_report xs"
| "tuple_report (m # xs) = tuple_report xs"

subsection \<open>The process and its surroundings\<close>

text \<open>
  The global variables of the program, together with what the process has done so far:
  the messages printed with \<^verbatim>\<open>SAYF\<close>, the messages of fatal errors, the system calls made
  and whether the \<^verbatim>\<open>atexit\<close> handler is registered. \<^verbatim>\<open>trace_bits\<close> holds the bytes of the
  region the pointer refers to; it is empty while the pointer refers to no mapped memory.
\<close>

datatype call =
    Shmget | Atexit_remove_shm | Setenv string string | Shmat | Shmctl_rmid
  | Pipe | Fork | Close | Write_ctl | Read_st
  | Getrlimit | Setrlimit | Open_dev_null | Dup2 | Execvp string

record state =
  forksrv_pid :: int
  child_pid :: s32
  trace_bits :: "u8 list"
  shm_id :: int
  sink_output :: u8
  be_quiet :: u8
  printed :: "said list"
  diagnostics :: "string list"
  calls :: "call list"
  at_exit :: bool

definition initial :: state where
  "initial = \<lparr>forksrv_pid = 0, child_pid = 0, trace_bits = [], shm_id = 0, sink_output = 0,
     be_quiet = 0, printed = [], diagnostics = [], calls = [], at_exit = False\<rparr>"

text \<open>
  The constants of \<^verbatim>\<open>config.h\<close> that the program uses. The file is not among the
  sources, so they are parameters.
\<close>

record config =
  cfg_MAP_SIZE :: u32
  cfg_SHM_ENV_VAR :: string
  cfg_FORKSRV_FD :: nat

text \<open>
  What the operating system and the traced program answer in one run: the arguments and
  the environment of the process, the value each system call returns, what each
  \<^verbatim>\<open>read\<close> on the status pipe delivers (the number of bytes and the word stored in the
  buffer) and the bytes the traced program has left in the shared region (\<open>hits\<close>).
  \<^verbatim>\<open>shmat\<close> returns a null pointer, the pointer \<^verbatim>\<open>(void *) -1\<close> of a failure, or the address
  of the attached region. A system call is seen through the value it returns; signals
  that the system may deliver to the process are not part of the model.
\<close>

datatype shm_addr = Null_addr | Minus_one | Attached

record world =
  argv :: "string list"
  environ :: "string \<rightharpoonup> string"
  shmget_ret :: int
  shmat_ret :: shm_addr
  pipe_st_ret :: int
  pipe_ctl_ret :: int
  fork_ret :: int
  getrlimit_ret :: int
  rlim_cur :: nat
  open_ret :: int
  dup2_ret :: "nat \<Rightarrow> int"
  execvp_ok :: bool
  write_ret :: int
  st_reads :: "(int \<times> s32) list"
  hits :: "nat \<Rightarrow> u8"

text \<open>
  How the process ends: \<^verbatim>\<open>exit\<close> with a status, an access outside the mapped memory, or
  (in the forked child) the replacement of the process image by \<^verbatim>\<open>execvp\<close>.
\<close>

datatype ending = Exited int | Faulted | Replaced

text \<open>
  Modelled from the spec: \<^verbatim>\<open>SAYF\<close> is a macro of \<^verbatim>\<open>debug.h\<close>, which is not among the
  sources. Sections 1 and 6 of the specification: the messages of the tool and the tuple
  report go to the output of the process, as text, in the order in which they are
  printed. A call adds its message at the end of what has been printed.
\<close>

definition SAYF :: "said \<Rightarrow> state \<Rightarrow> state" where
  "SAYF m s = s\<lparr>printed := printed s @ [m]\<rparr>"

definition sys :: "call \<Rightarrow> state \<Rightarrow> state" where
  "sys c s = s\<lparr>calls := calls s @ [c]\<rparr>"

definition remove_shm :: "state \<Rightarrow> state" where
  "remove_shm s = sys Shmctl_rmid s"

text \<open>\<^verbatim>\<open>exit\<close> runs the handler registered with \<^verbatim>\<open>atexit\<close> and ends the process.\<close>

definition exit_with :: "int \<Rightarrow> state \<Rightarrow> ending \<times> state" where
  "exit_with status s = (Exited status, if at_exit s then remove_shm s else s)"

text \<open>
  Modelled from the spec: \<^verbatim>\<open>FATAL\<close> and \<^verbatim>\<open>PFATAL\<close> are macros of \<^verbatim>\<open>debug.h\<close>, which is
  not among the sources. Section 7 of the specification: all fatal conditions terminate
  the process immediately with a non-zero exit status and a message to the diagnostic
  stream. The status 1 stands for the non-zero status.
\<close>

definition FATAL :: "string \<Rightarrow> state \<Rightarrow> ending \<times> state" where
  "FATAL msg s = exit_with 1 (s\<lparr>diagnostics := diagnostics s @ [msg]\<rparr>)"

definition PFATAL :: "string \<Rightarrow> state \<Rightarrow> ending \<times> state" where
  "PFATAL msg s = exit_with 1 (s\<lparr>diagnostics := diagnostics s @ [msg]\<rparr>)"

text \<open>
  The conversion \<^verbatim>\<open>%d\<close>, with which \<^verbatim>\<open>alloc_printf\<close> (a macro of \<^verbatim>\<open>alloc-inl.h\<close>, which
  formats into a fresh buffer) writes \<^verbatim>\<open>shm_id\<close>, and \<^verbatim>\<open>argv[0]\<close> as \<^verbatim>\<open>%s\<close> prints it.
\<close>

definition fmt_d :: "int \<Rightarrow> string" where
  "fmt_d k = (if k < 0 then ''-'' @ dec (nat (- k)) else dec (nat k))"

definition arg0 :: "string list \<Rightarrow> string" where
  "arg0 args = (case args of [] \<Rightarrow> ''(null)'' | a # _ \<Rightarrow> a)"

text \<open>
  The macros of \<^verbatim>\<open>sys/wait.h\<close>:
  \<^verbatim>\<open>WTERMSIG(s) = s & 0x7f\<close> and
  \<^verbatim>\<open>WIFSIGNALED(s) = ((signed char) ((s & 0x7f) + 1) >> 1) > 0\<close>.
\<close>

definition WTERMSIG :: "s32 \<Rightarrow> nat" where
  "WTERMSIG status = unat (status AND 0x7f)"

definition WIFSIGNALED :: "s32 \<Rightarrow> bool" where
  "WIFSIGNALED status =
     (0 < sint (signed_drop_bit 1 (ucast ((status AND 0x7f) + 1) :: 8 word)))"

subsection \<open>Shared memory\<close>

text \<open>
  \<^verbatim>\<open>setup_shm\<close>. A fresh region of \<open>MAP_SIZE\<close> bytes is filled with zeros. The test after
  \<^verbatim>\<open>shmat\<close> is \<^verbatim>\<open>!trace_bits\<close>, so the pointer of a failure passes it, and
  \<^verbatim>\<open>trace_bits\<close> then refers to no mapped memory.
\<close>

definition setup_shm :: "config \<Rightarrow> world \<Rightarrow> state \<Rightarrow> (ending \<times> state) + state" where
  "setup_shm cfg w s =
    (let s = (sys Shmget s)\<lparr>shm_id := shmget_ret w\<rparr> in
     if shm_id s < 0 then Inl (PFATAL ''shmget() failed'' s)
     else
       let s = (sys Atexit_remove_shm s)\<lparr>at_exit := True\<rparr>;
           s = sys (Setenv (cfg_SHM_ENV_VAR cfg) (fmt_d (shm_id s))) s;
           s = (sys Shmat s)\<lparr>trace_bits :=
                 (if shmat_ret w = Attached then replicate (unat (cfg_MAP_SIZE cfg)) 0 else [])\<rparr>
       in if shmat_ret w = Null_addr then Inl (PFATAL ''shmat() failed'' s) else Inr s)"

subsection \<open>Running the target\<close>

text \<open>
  The \<open>k\<close>-th \<^verbatim>\<open>read(st_pipe[0], ..., 4)\<close>; at the end of the stream \<^verbatim>\<open>read\<close> returns 0.
\<close>

definition st_read :: "world \<Rightarrow> nat \<Rightarrow> int \<times> s32" where
  "st_read w k = (if k < length (st_reads w) then st_reads w ! k else (0, 0))"

text \<open>The block \<^verbatim>\<open>if (sink_output) { ... }\<close> of the forked child.\<close>

definition sink_child_output :: "world \<Rightarrow> state \<Rightarrow> (ending \<times> state) + state" where
  "sink_child_output w s =
    (let s = sys Open_dev_null s in
     if open_ret w < 0 then Inl (PFATAL ''Cannot open /dev/null'' s)
     else
       let s = sys Dup2 s in
       if dup2_ret w 1 < 0 then Inl (PFATAL ''dup2() failed'' s)
       else
         let s = sys Dup2 s in
         if dup2_ret w 2 < 0 then Inl (PFATAL ''dup2() failed'' s)
         else Inr (sys Close s))"

text \<open>The block \<^verbatim>\<open>if (!forksrv_pid) { ... }\<close>: the forked child, which never returns.\<close>

definition forkserver_child :: "config \<Rightarrow> world \<Rightarrow> string list \<Rightarrow> state \<Rightarrow> ending \<times> state" where
  "forkserver_child cfg w args s =
    (let s = sys Getrlimit s;
         s = (if getrlimit_ret w = 0 \<and> rlim_cur w < cfg_FORKSRV_FD cfg + 2
              then sys Setrlimit s else s)
     in case (if sink_output s \<noteq> 0 then sink_child_output w s else Inr s) of
          Inl r \<Rightarrow> r
        | Inr s \<Rightarrow>
            let s = sys Dup2 s in
            if dup2_ret w (cfg_FORKSRV_FD cfg) < 0 then PFATAL ''dup2() failed'' s
            else
              let s = sys Dup2 s in
              if dup2_ret w (cfg_FORKSRV_FD cfg + 1) < 0 then PFATAL ''dup2() failed'' s
              else
                let s = sys Close (sys Close (sys Close (sys Close s)));
                    s = sys (Execvp (arg0 args)) s
                in if execvp_ok w then (Replaced, s)
                   else PFATAL (''Unable to execute '' @ arg0 args) s)"

text \<open>
  \<^verbatim>\<open>run_target\<close>. The conditions of \<^verbatim>\<open>||\<close> are evaluated from left to right and stop at
  the first that holds, so a read is made only when every read before it has delivered
  4 bytes. A read that delivers 4 bytes stores its word; after any other read the process
  ends, and the buffer is not looked at. Once the third read has delivered the status,
  the traced program has exited and the region holds what it has written there.
\<close>

definition run_target :: "config \<Rightarrow> world \<Rightarrow> string list \<Rightarrow> state \<Rightarrow> (ending \<times> state) + state" where
  "run_target cfg w args s =
    (let s = sys Pipe s in
     if pipe_st_ret w \<noteq> 0 then Inl (PFATAL ''pipe() failed'' s)
     else
       let s = sys Pipe s in
       if pipe_ctl_ret w \<noteq> 0 then Inl (PFATAL ''pipe() failed'' s)
       else
         let s = (sys Fork s)\<lparr>forksrv_pid := fork_ret w\<rparr> in
         if forksrv_pid s < 0 then Inl (PFATAL ''fork() failed'' s)
         else if forksrv_pid s = 0 then Inl (forkserver_child cfg w args s)
         else
           let s = sys Write_ctl (sys Close (sys Close s)) in
           if write_ret w \<noteq> 4
           then Inl (FATAL ''No instrumentation detected or fork server fault'' s)
           else
             let s = sys Read_st s in
             if fst (st_read w 0) \<noteq> 4
             then Inl (FATAL ''No instrumentation detected or fork server fault'' s)
             else
               let s = (sys Read_st s)\<lparr>child_pid :=
                         (if fst (st_read w 1) = 4 then snd (st_read w 1) else child_pid s)\<rparr>
               in
               if fst (st_read w 1) \<noteq> 4 \<or> sint (child_pid s) \<le> 0
               then Inl (FATAL ''No instrumentation detected or fork server fault'' s)
               else
                 let s = sys Read_st s in
                 if fst (st_read w 2) \<noteq> 4
                 then Inl (FATAL ''No instrumentation detected or fork server fault'' s)
                 else
                   let status = snd (st_read w 2);
                       s = s\<lparr>trace_bits := map (hits w) [0..<length (trace_bits s)]\<rparr>
                   in Inr (if WIFSIGNALED status
                           then SAYF (Killed_by_signal (WTERMSIG status)) s else s))"

subsection \<open>Usage and main\<close>

definition usage :: "string \<Rightarrow> state \<Rightarrow> ending \<times> state" where
  "usage argv0 s = exit_with 1 (SAYF (Usage_text argv0) s)"

text \<open>\<^verbatim>\<open>main\<close>; \<^verbatim>\<open>argc\<close> is the length of \<^verbatim>\<open>argv\<close>.\<close>

definition main :: "config \<Rightarrow> endianness \<Rightarrow> world \<Rightarrow> ending \<times> state" where
  "main cfg e w =
    (let s = (if environ w ''AFL_QUIET'' = None then SAYF Version_banner initial
              else initial\<lparr>be_quiet := 1\<rparr>)
     in
     if int (length (argv w)) < 2 then usage (arg0 (argv w)) s
     else
       case setup_shm cfg w s of
         Inl r \<Rightarrow> r
       | Inr s \<Rightarrow>
           let s = (if environ w ''AFL_SINK_OUTPUT'' \<noteq> None then s\<lparr>sink_output := 1\<rparr> else s);
               s = (if be_quiet s = 0 \<and> sink_output s = 0 then SAYF Output_begins s else s)
           in
           case run_target cfg w (tl (argv w)) s of
             Inl r \<Rightarrow> r
           | Inr s \<Rightarrow>
               let s = (if be_quiet s = 0 \<and> sink_output s = 0 then SAYF Output_ends s else s)
               in
               case count_bits e (cfg_MAP_SIZE cfg) (trace_bits s) of
                 None \<Rightarrow> (Faulted, s)
               | Some n \<Rightarrow>
                   if n = 0 then FATAL ''No instrumentation data recorded'' s
                   else
                     let s = (if be_quiet s = 0 then SAYF Tuples_recorded s else s) in
                     case show_tuples (cfg_MAP_SIZE cfg) (trace_bits s) (printed s) of
                       None \<Rightarrow> (Faulted, s)
                     | Some (mem, out) \<Rightarrow> exit_with 0 (s\<lparr>trace_bits := mem, printed := out\<rparr>))"

section \<open>Reference definitions\<close>

text \<open>
  The naive count the specification compares \<^verbatim>\<open>count_bits\<close> with: look at each of the
  eight bits of each byte and add up those that are set.
\<close>

definition bits_in_byte :: "u8 \<Rightarrow> nat" where
  "bits_in_byte b = length (filter (bit b) [0..<8])"

definition naive_count_bits :: "u8 list \<Rightarrow> nat" where
  "naive_count_bits mem = sum_list (map bits_in_byte mem)"

text \<open>
  For the proof that the word-parallel count is right, a word is read as four byte lanes,
  and the first steps of the count are followed on one lane.
\<close>

definition lanes :: "int \<Rightarrow> int \<Rightarrow> int \<Rightarrow> int \<Rightarrow> int" where
  "lanes a0 a1 a2 a3 = a0 + 256 * (a1 + 256 * (a2 + 256 * a3))"

definition pcn :: "int \<Rightarrow> int" where
  "pcn a = a mod 2 + a div 2 mod 2 + a div 4 mod 2 + a div 8 mod 2 + a div 16 mod 2
         + a div 32 mod 2 + a div 64 mod 2 + a div 128 mod 2"

definition lane :: "int \<Rightarrow> int" where
  "lane a = (let c = a - (a div 2 AND 0x55) in (c AND 0x33) + (c div 4 AND 0x33))"

definition lane_ok :: "int \<Rightarrow> bool" where
  "lane_ok a = ((a div 2 AND 0x55) \<le> a \<and> lane a \<le> 68 \<and> lane a mod 16 \<le> 4
                \<and> (lane a + lane a div 16) mod 16 = pcn a)"

text \<open>Reading a decimal numeral back, to say what the printed digits denote.\<close>

definition digit_value :: "char \<Rightarrow> nat" where
  "digit_value c = of_char c - 48"

definition read_decimal :: "string \<Rightarrow> nat" where
  "read_decimal s = foldl (\<lambda>a c. 10 * a + digit_value c) 0 s"

text \<open>
  The conditions under which a run gets through the start-up and the handshake, and the
  raw bitmap that the parent then finds in the region.
\<close>

definition startup_ok :: "world \<Rightarrow> bool" where
  "startup_ok w =
     (2 \<le> length (argv w) \<and> 0 \<le> shmget_ret w \<and> shmat_ret w \<noteq> Null_addr
      \<and> pipe_st_ret w = 0 \<and> pipe_ctl_ret w = 0 \<and> 0 < fork_ret w)"

definition reads_ok :: "world \<Rightarrow> bool" where
  "reads_ok w =
     (fst (st_read w 0) = 4 \<and> fst (st_read w 1) = 4 \<and> 0 < sint (snd (st_read w 1))
      \<and> fst (st_read w 2) = 4)"

definition handshake_completed :: "world \<Rightarrow> bool" where
  "handshake_completed w = (startup_ok w \<and> write_ret w = 4 \<and> reads_ok w)"

definition raw_bitmap :: "config \<Rightarrow> world \<Rightarrow> u8 list" where
  "raw_bitmap cfg w =
     (if shmat_ret w = Attached then map (hits w) [0..<unat (cfg_MAP_SIZE cfg)] else [])"

text \<open>The number of reads on the status pipe up to the first one that fails.\<close>

definition reads_made :: "world \<Rightarrow> nat" where
  "reads_made w =
     (if fst (st_read w 0) \<noteq> 4 then 1
      else if fst (st_read w 1) \<noteq> 4 \<or> sint (snd (st_read w 1)) \<le> 0 then 2
      else 3)"

text \<open>
  The stages of \<^verbatim>\<open>main\<close>, named for the proofs: the state after the test of
  \<^verbatim>\<open>AFL_QUIET\<close>, the state before \<^verbatim>\<open>run_target\<close>, and what \<^verbatim>\<open>main\<close> does after
  \<^verbatim>\<open>run_target\<close> has returned.
\<close>

definition main_banner :: "world \<Rightarrow> state" where
  "main_banner w =
     (if environ w ''AFL_QUIET'' = None then SAYF Version_banner initial
      else initial\<lparr>be_quiet := 1\<rparr>)"

definition main_before_run :: "world \<Rightarrow> state \<Rightarrow> state" where
  "main_before_run w s =
     (let s = (if environ w ''AFL_SINK_OUTPUT'' \<noteq> None then s\<lparr>sink_output := 1\<rparr> else s)
      in if be_quiet s = 0 \<and> sink_output s = 0 then SAYF Output_begins s else s)"

definition main_report :: "config \<Rightarrow> endianness \<Rightarrow> state \<Rightarrow> ending \<times> state" where
  "main_report cfg e s =
     (let s = (if be_quiet s = 0 \<and> sink_output s = 0 then SAYF Output_ends s else s) in
      case count_bits e (cfg_MAP_SIZE cfg) (trace_bits s) of
        None \<Rightarrow> (Faulted, s)
      | Some n \<Rightarrow>
          if n = 0 then FATAL ''No instrumentation data recorded'' s
          else
            let s = (if be_quiet s = 0 then SAYF Tuples_recorded s else s) in
            case show_tuples (cfg_MAP_SIZE cfg) (trace_bits s) (printed s) of
              None \<Rightarrow> (Faulted, s)
            | Some (mem, out) \<Rightarrow> exit_with 0 (s\<lparr>trace_bits := mem, printed := out\<rparr>))"

text \<open>
  The tuple lines that a run prints, as a function of what the system and the traced
  program answer; the environment does not occur in it.
\<close>

definition expected_report :: "config \<Rightarrow> endianness \<Rightarrow> world \<Rightarrow> string list" where
  "expected_report cfg e w =
     (if handshake_completed w then
        (case count_bits e (cfg_MAP_SIZE cfg) (raw_bitmap cfg w) of
           None \<Rightarrow> []
         | Some n \<Rightarrow>
             if n = 0 then []
             else (case show_tuples (cfg_MAP_SIZE cfg) (raw_bitmap cfg w) [] of
                     None \<Rightarrow> []
                   | Some (mem, ls) \<Rightarrow> tuple_report ls))
      else [])"

text \<open>
  A concrete configuration and a concrete run, for the examples: a map of 8 bytes, a
  target that hits the entries 2 and 6, and a fork server that answers as it should.
\<close>

definition example_config :: config where
  "example_config = \<lparr>cfg_MAP_SIZE = 8, cfg_SHM_ENV_VAR = ''__AFL_SHM_ID'', cfg_FORKSRV_FD = 198\<rparr>"

definition example_world :: world where
  "example_world =
     \<lparr>argv = [''afl-showmap'', ''./target''], environ = Map.empty, shmget_ret = 5,
      shmat_ret = Attached, pipe_st_ret = 0, pipe_ctl_ret = 0, fork_ret = 100,
      getrlimit_ret = 0, rlim_cur = 1024, open_ret = 3, dup2_ret = (\<lambda>fd. 0),
      execvp_ok = True, write_ret = 4, st_reads = [(4, 0), (4, 101), (4, 0)],
      hits = (\<lambda>i. if i = 2 then 5 else if i = 6 then 1 else 0)\<rparr>"

section \<open>Properties of the classification\<close>

lemma eq_3_unat: "(v = (3::u8)) = (unat v = 3)"
  by (simp add: word_unat_eq_iff)

lemma classify_byte_unat:
  "classify_byte v =
    (if unat v = 3 then 4
     else if 4 \<le> unat v \<and> unat v \<le> 7 then 8
     else if 8 \<le> unat v \<and> unat v \<le> 15 then 16
     else if 16 \<le> unat v \<and> unat v \<le> 31 then 32
     else if 32 \<le> unat v \<and> unat v \<le> 127 then 64
     else if 128 \<le> unat v \<and> unat v \<le> 255 then 128
     else v)"
  unfolding classify_byte_def eq_3_unat word_le_nat_alt by simp

lemma unat_classify_byte:
  "unat (classify_byte v) =
    (if unat v = 3 then 4
     else if 4 \<le> unat v \<and> unat v \<le> 7 then 8
     else if 8 \<le> unat v \<and> unat v \<le> 15 then 16
     else if 16 \<le> unat v \<and> unat v \<le> 31 then 32
     else if 32 \<le> unat v \<and> unat v \<le> 127 then 64
     else if 128 \<le> unat v \<and> unat v \<le> 255 then 128
     else unat v)"
  by (simp add: classify_byte_unat)

lemma unat_u8_less: "unat (v :: u8) < 256"
proof -
  have "unat v < 2 ^ LENGTH(8)" by (rule unsigned_less)
  then show ?thesis by simp
qed

lemma classify_byte_zero_iff: "classify_byte v = 0 \<longleftrightarrow> v = 0"
  using unat_classify_byte [of v] by (simp add: word_unat_eq_iff split: if_splits)

lemma classify_loop_eq:
  "p + i = length mem \<Longrightarrow>
   classify_loop i p mem = Some (take p mem @ map classify_byte (drop p mem))"
proof (induction i arbitrary: p mem)
  case 0
  then show ?case by simp
next
  case (Suc i)
  from Suc.prems have p: "p < length mem" by simp
  let ?mem' = "mem[p := classify_byte (mem ! p)]"
  have "Suc p + i = length ?mem'" using Suc.prems by simp
  then have "classify_loop i (Suc p) ?mem'
      = Some (take (Suc p) ?mem' @ map classify_byte (drop (Suc p) ?mem'))"
    by (rule Suc.IH)
  moreover have "take (Suc p) ?mem' = take p mem @ [classify_byte (mem ! p)]"
    using p by (simp add: take_Suc_conv_app_nth)
  moreover have "drop (Suc p) ?mem' = drop (Suc p) mem"
    by simp
  moreover have "drop p mem = mem ! p # drop (Suc p) mem"
    using p by (simp add: Cons_nth_drop_Suc)
  ultimately show ?case using p by simp
qed

lemma classify_counts_map:
  "length mem = unat MAP_SIZE \<Longrightarrow> classify_counts MAP_SIZE mem = Some (map classify_byte mem)"
  using classify_loop_eq [of 0 "unat MAP_SIZE" mem] by (simp add: classify_counts_def)

text \<open>
  C1. The classification rewrites a byte by the documented table: 0, 1 and 2 stay, 3
  becomes 4, 4..7 become 8, 8..15 become 16, 16..31 become 32, 32..127 become 64 and
  128..255 become 128; \<open>classify_counts\<close> applies this to each of the \<open>MAP_SIZE\<close> entries
  of the bitmap, independently of the others.
\<close>

theorem classify_counts_table:
  "(unat v \<in> {0, 1, 2} \<longrightarrow> classify_byte v = v) \<and>
   (unat v = 3 \<longrightarrow> classify_byte v = 4) \<and>
   (unat v \<in> {4..7} \<longrightarrow> classify_byte v = 8) \<and>
   (unat v \<in> {8..15} \<longrightarrow> classify_byte v = 16) \<and>
   (unat v \<in> {16..31} \<longrightarrow> classify_byte v = 32) \<and>
   (unat v \<in> {32..127} \<longrightarrow> classify_byte v = 64) \<and>
   (unat v \<in> {128..255} \<longrightarrow> classify_byte v = 128) \<and>
   unat v \<in> {0..255} \<and>
   (length mem = unat MAP_SIZE \<longrightarrow>
      classify_counts MAP_SIZE mem = Some (map classify_byte mem))"
proof -
  have "unat v \<in> {0..255}" using unat_u8_less [of v] by simp
  moreover have "length mem = unat MAP_SIZE \<longrightarrow>
      classify_counts MAP_SIZE mem = Some (map classify_byte mem)"
    by (simp add: classify_counts_map)
  moreover have "unat v \<in> {0, 1, 2} \<longrightarrow> classify_byte v = v"
    by (auto simp add: classify_byte_unat)
  moreover have "unat v = 3 \<longrightarrow> classify_byte v = 4"
    by (simp add: classify_byte_unat)
  moreover have "unat v \<in> {4..7} \<longrightarrow> classify_byte v = 8"
    by (simp add: classify_byte_unat)
  moreover have "unat v \<in> {8..15} \<longrightarrow> classify_byte v = 16"
    by (simp add: classify_byte_unat)
  moreover have "unat v \<in> {16..31} \<longrightarrow> classify_byte v = 32"
    by (simp add: classify_byte_unat)
  moreover have "unat v \<in> {32..127} \<longrightarrow> classify_byte v = 64"
    by (simp add: classify_byte_unat)
  moreover have "unat v \<in> {128..255} \<longrightarrow> classify_byte v = 128"
    by (simp add: classify_byte_unat)
  ultimately show ?thesis by blast
qed

theorem classify_counts_table_witness:
  "classify_byte 2 = 2 \<and> classify_byte 3 = 4 \<and> classify_byte 7 = 8 \<and> classify_byte 8 = 16
   \<and> classify_byte 31 = 32 \<and> classify_byte 127 = 64 \<and> classify_byte 255 = 128
   \<and> classify_counts 8 [0, 1, 2, 3, 5, 20, 100, 200] = Some [0, 1, 2, 4, 8, 32, 64, 128]"
  using classify_counts_table [of 2 "[0, 1, 2, 3, 5, 20, 100, 200]" 8]
    classify_counts_table [of 3 "[]" 0] classify_counts_table [of 7 "[]" 0]
    classify_counts_table [of 8 "[]" 0] classify_counts_table [of 31 "[]" 0]
    classify_counts_table [of 127 "[]" 0] classify_counts_table [of 255 "[]" 0]
  by (simp add: classify_byte_unat)

text \<open>
  C4, as the code has it. The classification is monotone. It is idempotent on 0, 1, 2 and
  on 32..255 only: a value in 3..31 lands on a power of two below 64, which the next
  application moves one bucket up.
\<close>

theorem classify_byte_monotone_idempotent_range:
  "(v1 \<le> v2 \<longrightarrow> classify_byte v1 \<le> classify_byte v2) \<and>
   (classify_byte (classify_byte v) = classify_byte v \<longleftrightarrow> unat v \<le> 2 \<or> 32 \<le> unat v) \<and>
   (3 \<le> unat v \<and> unat v \<le> 31 \<longrightarrow> classify_byte (classify_byte v) = 2 * classify_byte v)"
proof -
  have "classify_byte v1 \<le> classify_byte v2" if "v1 \<le> v2"
    using that unat_u8_less [of v1] unat_u8_less [of v2]
    unfolding word_le_nat_alt unat_classify_byte by (simp split: if_splits)
  then have "v1 \<le> v2 \<longrightarrow> classify_byte v1 \<le> classify_byte v2" ..
  moreover have "classify_byte (classify_byte v) = classify_byte v \<longleftrightarrow> unat v \<le> 2 \<or> 32 \<le> unat v"
    using unat_u8_less [of v] unfolding word_unat_eq_iff [of _ "classify_byte v"]
    by (subst unat_classify_byte) (simp add: unat_classify_byte)
  moreover have "3 \<le> unat v \<and> unat v \<le> 31 \<longrightarrow> classify_byte (classify_byte v) = 2 * classify_byte v"
    by (subst classify_byte_unat) (auto simp add: unat_classify_byte classify_byte_unat)
  ultimately show ?thesis by blast
qed

theorem classify_byte_monotone_idempotent_range_witness:
  "classify_byte 5 \<le> classify_byte 9 \<and> classify_byte (classify_byte 40) = classify_byte 40
   \<and> classify_byte (classify_byte 5) = 2 * classify_byte 5"
  using classify_byte_monotone_idempotent_range [of 5 9 40]
    classify_byte_monotone_idempotent_range [of 0 0 5]
  by simp

theorem classify_byte_not_idempotent:
  "classify_byte (classify_byte 3) \<noteq> classify_byte 3"
  by (simp add: classify_byte_def)

section \<open>The word-parallel bit count\<close>

lemma and_split:
  fixes a c x y :: int
  shows "0 \<le> a \<Longrightarrow> a < 2 ^ n \<Longrightarrow> 0 \<le> c \<Longrightarrow> c < 2 ^ n \<Longrightarrow>
    (a + 2 ^ n * x) AND (c + 2 ^ n * y) = (a AND c) + 2 ^ n * (x AND y)"
proof (induction n arbitrary: a c)
  case 0
  then have "a = 0" "c = 0" by simp_all
  then show ?case by simp
next
  case (Suc n)
  have a: "0 \<le> a div 2" "a div 2 < 2 ^ n" and c: "0 \<le> c div 2" "c div 2 < 2 ^ n"
    using Suc.prems by auto
  have da: "(a + 2 ^ Suc n * x) div 2 = a div 2 + 2 ^ n * x" by simp
  have dc: "(c + 2 ^ Suc n * y) div 2 = c div 2 + 2 ^ n * y" by simp
  have oa: "odd (a + 2 ^ Suc n * x) = odd a" by simp
  have oc: "odd (c + 2 ^ Suc n * y) = odd c" by simp
  have "(a + 2 ^ Suc n * x) AND (c + 2 ^ Suc n * y)
      = of_bool (odd a \<and> odd c) + 2 * ((a div 2 + 2 ^ n * x) AND (c div 2 + 2 ^ n * y))"
    by (subst and_int_rec) (simp only: da dc oa oc)
  also have "\<dots> = of_bool (odd a \<and> odd c) + 2 * ((a div 2 AND c div 2) + 2 ^ n * (x AND y))"
    by (simp only: Suc.IH [OF a c])
  also have "\<dots> = (of_bool (odd a \<and> odd c) + 2 * (a div 2 AND c div 2)) + 2 ^ Suc n * (x AND y)"
    by simp
  also have "of_bool (odd a \<and> odd c) + 2 * (a div 2 AND c div 2) = (a AND c)"
    by (rule and_int_rec [symmetric])
  finally show ?case .
qed

lemma peel:
  fixes a m R M D Q :: int
  assumes a: "0 \<le> a" "a < 256" and m: "0 \<le> m" "m < Q"
    and DQ: "D * Q = 256" "0 < D" and Q: "Q = 2 ^ n"
  shows "((a + 256 * R) div D) AND (m + 256 * M) = ((a div D) AND m) + 256 * ((R div D) AND M)"
proof -
  have Qpos: "0 < Q" using Q by simp
  have Qle: "Q \<le> 256"
    using DQ Qpos by (metis int_one_le_iff_zero_less mult.commute mult_left_le_imp_le
        mult_numeral_1_right nle_le pos_zmult_eq_1_iff)
  have aD: "0 \<le> a div D" using a DQ by (simp add: pos_imp_zdiv_nonneg_iff)
  have "a < D * Q" using a DQ by simp
  have aQ: "a div D < Q"
  proof (rule ccontr)
    assume "\<not> a div D < Q"
    then have "D * Q \<le> D * (a div D)" using DQ(2) by (intro mult_left_mono) simp_all
    moreover have "D * (a div D) + a mod D = a" by simp
    moreover have "0 \<le> a mod D" using DQ(2) by simp
    ultimately show False using \<open>a < D * Q\<close> by linarith
  qed
  have rD: "0 \<le> R mod D" "R mod D \<le> D - 1" using DQ(2) by simp_all
  have "Q * (R mod D) \<le> Q * (D - 1)" using rD Qpos by (intro mult_left_mono) simp_all
  also have "\<dots> = D * Q - Q" by (simp add: algebra_simps)
  also have "\<dots> = 256 - Q" by (simp only: DQ)
  finally have qr: "Q * (R mod D) \<le> 256 - Q" .
  have qr0: "0 \<le> Q * (R mod D)" using rD Qpos by simp
  define a' where "a' = a div D + Q * (R mod D)"
  have a': "0 \<le> a'" "a' < 2 ^ 8" using aD aQ qr qr0 by (simp_all add: a'_def)
  have m8: "0 \<le> m" "m < 2 ^ 8" using m Qle by simp_all
  have e: "256 * R = D * (Q * R)" using DQ by simp
  have "(a + D * (Q * R)) div D = a div D + Q * R" using DQ(2) by simp
  then have "(a + 256 * R) div D = a div D + Q * R" by (simp only: e)
  moreover have "R = D * (R div D) + R mod D" by simp
  then have "Q * R = Q * (D * (R div D) + R mod D)" by (rule arg_cong)
  then have "Q * R = (D * Q) * (R div D) + Q * (R mod D)" by (simp only: algebra_simps)
  then have "Q * R = 256 * (R div D) + Q * (R mod D)" by (simp only: DQ)
  ultimately have split: "(a + 256 * R) div D = a' + 2 ^ 8 * (R div D)" by (simp add: a'_def)
  have "a' AND m = (a div D + 2 ^ n * (R mod D)) AND (m + 2 ^ n * 0)"
    by (simp add: a'_def Q)
  also have "\<dots> = (a div D AND m) + 2 ^ n * ((R mod D) AND 0)"
    using aD aQ m by (intro and_split) (simp_all add: Q)
  finally have low: "a' AND m = a div D AND m" by simp
  have "(a' + 2 ^ 8 * (R div D)) AND (m + 2 ^ 8 * M) = (a' AND m) + 2 ^ 8 * ((R div D) AND M)"
    using a' m8 by (intro and_split)
  then show ?thesis by (simp add: split low)
qed

lemma peel1:
  fixes a m R M :: int
  assumes "0 \<le> a" "a < 256" "0 \<le> m" "m < 256"
  shows "(a + 256 * R) AND (m + 256 * M) = (a AND m) + 256 * (R AND M)"
proof -
  have 1: "(1::int) * 256 = 256" by simp
  have 2: "(0::int) < 1" by simp
  have 3: "(256::int) = 2 ^ 8" by simp
  show ?thesis
    using peel [OF assms 1 2 3, of R M] by simp
qed

lemma peel2:
  fixes a m R M :: int
  assumes "0 \<le> a" "a < 256" "0 \<le> m" "m < 128"
  shows "((a + 256 * R) div 2) AND (m + 256 * M) = (a div 2 AND m) + 256 * (R div 2 AND M)"
proof -
  have 1: "(2::int) * 128 = 256" by simp
  have 2: "(0::int) < 2" by simp
  have 3: "(128::int) = 2 ^ 7" by simp
  show ?thesis
    by (rule peel [OF assms 1 2 3])
qed

lemma peel4:
  fixes a m R M :: int
  assumes "0 \<le> a" "a < 256" "0 \<le> m" "m < 64"
  shows "((a + 256 * R) div 4) AND (m + 256 * M) = (a div 4 AND m) + 256 * (R div 4 AND M)"
proof -
  have 1: "(4::int) * 64 = 256" by simp
  have 2: "(0::int) < 4" by simp
  have 3: "(64::int) = 2 ^ 6" by simp
  show ?thesis
    by (rule peel [OF assms 1 2 3])
qed

lemma lanes_and:
  assumes "0 \<le> a0" "a0 < 256" "0 \<le> a1" "a1 < 256" "0 \<le> a2" "a2 < 256" "0 \<le> m" "m < 256"
  shows "lanes a0 a1 a2 a3 AND lanes m m m m = lanes (a0 AND m) (a1 AND m) (a2 AND m) (a3 AND m)"
  unfolding lanes_def using assms by (simp only: peel1)

lemma lanes_and2:
  assumes "0 \<le> a0" "a0 < 256" "0 \<le> a1" "a1 < 256" "0 \<le> a2" "a2 < 256" "0 \<le> m" "m < 128"
  shows "(lanes a0 a1 a2 a3 div 2) AND lanes m m m m
       = lanes (a0 div 2 AND m) (a1 div 2 AND m) (a2 div 2 AND m) (a3 div 2 AND m)"
  unfolding lanes_def using assms by (simp only: peel2)

lemma lanes_and4:
  assumes "0 \<le> a0" "a0 < 256" "0 \<le> a1" "a1 < 256" "0 \<le> a2" "a2 < 256" "0 \<le> m" "m < 64"
  shows "(lanes a0 a1 a2 a3 div 4) AND lanes m m m m
       = lanes (a0 div 4 AND m) (a1 div 4 AND m) (a2 div 4 AND m) (a3 div 4 AND m)"
  unfolding lanes_def using assms by (simp only: peel4)

lemma nibble_cases:
  fixes h :: int
  shows "0 \<le> h \<Longrightarrow> h < 16 \<Longrightarrow> h \<in> {0, 1, 2, 3, 4, 5, 6, 7, 8, 9, 10, 11, 12, 13, 14, 15}"
  by simp presburger

lemma lane_nibbles:
  "h \<in> {0, 1, 2, 3, 4, 5, 6, 7, 8, 9, 10, 11, 12, 13, 14, 15} \<Longrightarrow>
   l \<in> {0, 1, 2, 3, 4, 5, 6, 7, 8, 9, 10, 11, 12, 13, 14, 15} \<Longrightarrow> lane_ok (16 * h + l)"
  by (elim insertE emptyE; simp add: lane_ok_def lane_def pcn_def)

lemma lane_ok_byte:
  assumes "0 \<le> a" "a < 256" shows "lane_ok a"
proof -
  have "0 \<le> a div 16" "a div 16 < 16" "0 \<le> a mod 16" "a mod 16 < 16" using assms by auto
  then have "lane_ok (16 * (a div 16) + a mod 16)"
    by (intro lane_nibbles nibble_cases)
  then show ?thesis by simp
qed

lemma uint_u8_bounds: "0 \<le> uint (b :: u8)" "uint (b :: u8) < 256"
  using uint_bounded [of b] by simp_all

lemma uint_ucast_u8: "uint (ucast (b :: u8) :: u32) = uint b"
  by (simp add: uint_up_ucast is_up)

lemma uint_drop_bit_u32: "uint (drop_bit n (w :: u32)) = uint w div 2 ^ n"
proof -
  have "uint (drop_bit n w) = drop_bit n (take_bit LENGTH(32) (uint w))"
    by (rule unsigned_drop_bit_eq)
  also have "take_bit LENGTH(32) (uint w) = uint w"
    by (rule take_bit_int_eq_self) (use uint_bounded [of w] in simp_all)
  finally show ?thesis by (simp only: drop_bit_eq_div)
qed

lemma and_15: "(x::int) AND 15 = x mod 16"
  using take_bit_eq_mask [of 4 x] by (simp add: take_bit_eq_mod mask_eq_exp_minus_1)

lemma upt_8: "[0..<8] = [0, 1, 2, 3, 4, 5, 6, 7]"
  by (simp add: upt_rec)

lemma bits_in_byte_pcn: "int (bits_in_byte b) = pcn (uint b)"
proof -
  note l = upt_8
  have b: "bit b k = odd (uint b div 2 ^ k)" for k
  proof -
    have "bit (uint b) k = bit b k"
      by (auto simp add: bit_uint_iff dest: bit_imp_le_length)
    then show ?thesis by (simp add: bit_iff_odd)
  qed
  show ?thesis
    unfolding bits_in_byte_def l pcn_def b by (simp add: mod_2_eq_odd) 
qed

lemma uint_word_of_bytes:
  "uint (word_of_bytes b0 b1 b2 b3) = lanes (uint b0) (uint b1) (uint b2) (uint b3)"
proof -
  have "lanes (uint b0) (uint b1) (uint b2) (uint b3) < 2 ^ 32"
    using uint_u8_bounds [of b0] uint_u8_bounds [of b1] uint_u8_bounds [of b2] uint_u8_bounds [of b3]
    unfolding lanes_def by simp
  moreover have "0 \<le> lanes (uint b0) (uint b1) (uint b2) (uint b3)"
    unfolding lanes_def by simp
  ultimately have m: "lanes (uint b0) (uint b1) (uint b2) (uint b3) mod 2 ^ 32
      = lanes (uint b0) (uint b1) (uint b2) (uint b3)"
    by simp
  have "word_of_bytes b0 b1 b2 b3 = word_of_int (lanes (uint b0) (uint b1) (uint b2) (uint b3))"
    by (simp add: word_of_bytes_def lanes_def push_bit_eq_mult algebra_simps)
  then have "uint (word_of_bytes b0 b1 b2 b3) = lanes (uint b0) (uint b1) (uint b2) (uint b3) mod 2 ^ 32"
    by (simp only: uint_word_of_int) simp
  then show ?thesis by (simp only: m)
qed

lemma lanes_div16:
  "lanes d0 d1 d2 d3 div 16 =
     lanes (d0 div 16 + 16 * (d1 mod 16)) (d1 div 16 + 16 * (d2 mod 16))
           (d2 div 16 + 16 * (d3 mod 16)) (d3 div 16)"
proof -
  define A1 where "A1 = 16 * (d1 div 16) + d1 mod 16"
  define A2 where "A2 = 16 * (d2 div 16) + d2 mod 16"
  define A3 where "A3 = 16 * (d3 div 16) + d3 mod 16"
  have A: "A1 = d1" "A2 = d2" "A3 = d3" by (simp_all add: A1_def A2_def A3_def)
  have "lanes d0 d1 d2 d3 = d0 + 16 * (16 * d1 + 4096 * d2 + 1048576 * d3)"
    by (simp add: lanes_def)
  then have l: "lanes d0 d1 d2 d3 div 16 = d0 div 16 + (16 * d1 + 4096 * d2 + 1048576 * d3)"
    by simp
  have "lanes (d0 div 16 + 16 * (d1 mod 16)) (d1 div 16 + 16 * (d2 mod 16))
           (d2 div 16 + 16 * (d3 mod 16)) (d3 div 16)
      = d0 div 16 + (16 * A1 + 4096 * A2 + 1048576 * A3)"
    unfolding lanes_def A1_def A2_def A3_def by (simp only: distrib_left mult.assoc [symmetric] add.assoc)
  then show ?thesis unfolding l A by simp
qed

lemma lanes_mult:
  assumes "0 \<le> f0" "f0 \<le> 8" "0 \<le> f1" "f1 \<le> 8" "0 \<le> f2" "f2 \<le> 8" "0 \<le> f3" "f3 \<le> 8"
  shows "(lanes f0 f1 f2 f3 * 0x1010101) mod 2 ^ 32 div 2 ^ 24 = f0 + f1 + f2 + f3"
proof -
  define S where "S = f0 + 256 * (f0 + f1) + 65536 * (f0 + f1 + f2)"
  define T where "T = f1 + f2 + f3 + 256 * (f2 + f3) + 65536 * f3"
  have e: "lanes f0 f1 f2 f3 * 0x1010101 = (S + 16777216 * (f0 + f1 + f2 + f3)) + 4294967296 * T"
    by (simp add: lanes_def S_def T_def algebra_simps)
  have S: "0 \<le> S" "S < 16777216" using assms by (simp_all add: S_def)
  have hi: "0 \<le> S + 16777216 * (f0 + f1 + f2 + f3)" "S + 16777216 * (f0 + f1 + f2 + f3) < 4294967296"
    using assms S by simp_all
  have "(lanes f0 f1 f2 f3 * 0x1010101) mod 2 ^ 32 = S + 16777216 * (f0 + f1 + f2 + f3)"
    unfolding e using hi by simp
  moreover have "(S + 16777216 * (f0 + f1 + f2 + f3)) div 16777216 = f0 + f1 + f2 + f3"
    using S by simp
  ultimately show ?thesis by simp
qed

lemma mod2_bounds: "0 \<le> (m::int) mod 2" "(m::int) mod 2 \<le> 1"
  by simp_all

lemma pcn_bounds: "0 \<le> pcn k" "pcn k \<le> 8"
proof -
  show "0 \<le> pcn k" unfolding pcn_def by (intro add_nonneg_nonneg mod2_bounds)
  have "pcn k \<le> 1 + 1 + 1 + 1 + 1 + 1 + 1 + 1"
    unfolding pcn_def by (intro add_mono mod2_bounds)
  then show "pcn k \<le> 8" by simp
qed

lemma fold_nibbles: "(d + (d div 16 + 16 * y)) mod 16 = (d + d div 16) mod (16::int)"
proof -
  have "(d + d div 16 + 16 * y) mod 16 = (d + d div 16) mod 16"
    by (rule mod_mult_self2)
  then show ?thesis by (simp only: add.assoc)
qed

lemma popcount_word_bytes:
  "popcount_word (word_of_bytes b0 b1 b2 b3)
     = of_nat (bits_in_byte b0 + bits_in_byte b1 + bits_in_byte b2 + bits_in_byte b3)"
proof -
  define a0 a1 a2 a3 where "a0 = uint b0" and "a1 = uint b1" and "a2 = uint b2" and "a3 = uint b3"
  have a: "0 \<le> a0" "a0 < 256" "0 \<le> a1" "a1 < 256" "0 \<le> a2" "a2 < 256" "0 \<le> a3" "a3 < 256"
    using uint_u8_bounds by (simp_all add: a0_def a1_def a2_def a3_def)
  have ok: "lane_ok a0" "lane_ok a1" "lane_ok a2" "lane_ok a3"
    using a by (simp_all add: lane_ok_byte)
  define v0 where "v0 = word_of_bytes b0 b1 b2 b3"
  have V0: "uint v0 = lanes a0 a1 a2 a3"
    by (simp add: v0_def uint_word_of_bytes a0_def a1_def a2_def a3_def)
  txt \<open>first step: pairs of bits\<close>
  define x where "x = (\<lambda>a::int. a div 2 AND 0x55)"
  have x: "0 \<le> x a0" "x a0 \<le> a0" "0 \<le> x a1" "x a1 \<le> a1"
    "0 \<le> x a2" "x a2 \<le> a2" "0 \<le> x a3" "x a3 \<le> a3"
    using ok by (simp_all add: x_def lane_ok_def)
  define t1 where "t1 = drop_bit 1 v0 AND 0x55555555"
  have "uint t1 = (lanes a0 a1 a2 a3 div 2) AND lanes 0x55 0x55 0x55 0x55"
    by (simp add: t1_def uint_and uint_drop_bit_u32 V0 lanes_def)
  then have T1: "uint t1 = lanes (x a0) (x a1) (x a2) (x a3)"
    using a by (simp add: lanes_and2 x_def)
  define c where "c = (\<lambda>a::int. a - x a)"
  define v1 where "v1 = v0 - t1"
  have "uint t1 \<le> uint v0"
    unfolding T1 V0 lanes_def using x by (intro add_mono mult_left_mono) simp_all
  then have "uint v1 = uint v0 - uint t1"
    unfolding v1_def by (simp add: uint_sub_lem)
  then have V1: "uint v1 = lanes (c a0) (c a1) (c a2) (c a3)"
    by (simp add: V0 T1 lanes_def c_def algebra_simps)
  have c: "0 \<le> c a0" "c a0 < 256" "0 \<le> c a1" "c a1 < 256" "0 \<le> c a2" "c a2 < 256" "0 \<le> c a3" "c a3 < 256"
    using a x by (simp_all add: c_def)
  txt \<open>second step: nibbles\<close>
  have d: "lane a = (c a AND 0x33) + (c a div 4 AND 0x33)" for a
    by (simp add: lane_def c_def x_def Let_def)
  define v2 where "v2 = (v1 AND 0x33333333) + (drop_bit 2 v1 AND 0x33333333)"
  have "uint (v1 AND 0x33333333) = lanes (c a0) (c a1) (c a2) (c a3) AND lanes 0x33 0x33 0x33 0x33"
    by (simp add: uint_and V1 lanes_def)
  then have P: "uint (v1 AND 0x33333333) = lanes (c a0 AND 0x33) (c a1 AND 0x33) (c a2 AND 0x33) (c a3 AND 0x33)"
    using c by (simp add: lanes_and)
  have "uint (drop_bit 2 v1 AND 0x33333333) = (lanes (c a0) (c a1) (c a2) (c a3) div 4) AND lanes 0x33 0x33 0x33 0x33"
    by (simp add: uint_and uint_drop_bit_u32 V1 lanes_def)
  then have Q: "uint (drop_bit 2 v1 AND 0x33333333)
      = lanes (c a0 div 4 AND 0x33) (c a1 div 4 AND 0x33) (c a2 div 4 AND 0x33) (c a3 div 4 AND 0x33)"
    using c by (simp add: lanes_and4)
  have dl: "0 \<le> lane a0" "lane a0 \<le> 68" "0 \<le> lane a1" "lane a1 \<le> 68"
    "0 \<le> lane a2" "lane a2 \<le> 68" "0 \<le> lane a3" "lane a3 \<le> 68"
    using ok c by (simp_all add: lane_ok_def d)
  have "uint v2 = (lanes (lane a0) (lane a1) (lane a2) (lane a3)) mod 2 ^ 32"
    unfolding v2_def by (simp add: uint_word_ariths P Q d lanes_def algebra_simps)
  moreover have "0 \<le> lanes (lane a0) (lane a1) (lane a2) (lane a3)"
    "lanes (lane a0) (lane a1) (lane a2) (lane a3) < 2 ^ 32"
    using dl by (simp_all add: lanes_def)
  ultimately have V2: "uint v2 = lanes (lane a0) (lane a1) (lane a2) (lane a3)"
    by simp
  txt \<open>third step: bytes\<close>
  define e0 e1 e2 e3 where "e0 = lane a0 div 16 + 16 * (lane a1 mod 16)"
    and "e1 = lane a1 div 16 + 16 * (lane a2 mod 16)"
    and "e2 = lane a2 div 16 + 16 * (lane a3 mod 16)"
    and "e3 = lane a3 div 16"
  have m16: "lane a1 mod 16 \<le> 4" "lane a2 mod 16 \<le> 4" "lane a3 mod 16 \<le> 4"
    using ok by (simp_all add: lane_ok_def)
  have e: "0 \<le> e0" "e0 \<le> 68" "0 \<le> e1" "e1 \<le> 68" "0 \<le> e2" "e2 \<le> 68" "0 \<le> e3" "e3 \<le> 68"
    using dl m16 by (simp_all add: e0_def e1_def e2_def e3_def)
  define v3 where "v3 = (v2 + drop_bit 4 v2) AND 0xF0F0F0F"
  have "uint (drop_bit 4 v2) = lanes e0 e1 e2 e3"
    by (simp add: uint_drop_bit_u32 V2 lanes_div16 e0_def e1_def e2_def e3_def)
  then have "uint (v2 + drop_bit 4 v2)
      = lanes (lane a0 + e0) (lane a1 + e1) (lane a2 + e2) (lane a3 + e3) mod 2 ^ 32"
    by (simp add: uint_word_ariths V2 lanes_def algebra_simps)
  moreover have "0 \<le> lanes (lane a0 + e0) (lane a1 + e1) (lane a2 + e2) (lane a3 + e3)"
    "lanes (lane a0 + e0) (lane a1 + e1) (lane a2 + e2) (lane a3 + e3) < 2 ^ 32"
    using dl e by (simp_all add: lanes_def)
  ultimately have S: "uint (v2 + drop_bit 4 v2)
      = lanes (lane a0 + e0) (lane a1 + e1) (lane a2 + e2) (lane a3 + e3)"
    by simp
  have "uint v3 = lanes (lane a0 + e0) (lane a1 + e1) (lane a2 + e2) (lane a3 + e3) AND lanes 15 15 15 15"
    by (simp add: v3_def uint_and S lanes_def)
  then have "uint v3 = lanes ((lane a0 + e0) AND 15) ((lane a1 + e1) AND 15) ((lane a2 + e2) AND 15) ((lane a3 + e3) AND 15)"
    using dl e by (simp add: lanes_and)
  moreover have "(lane a0 + e0) mod 16 = pcn a0" "(lane a1 + e1) mod 16 = pcn a1"
    "(lane a2 + e2) mod 16 = pcn a2" "(lane a3 + e3) mod 16 = pcn a3"
    using ok unfolding e0_def e1_def e2_def e3_def lane_ok_def fold_nibbles by simp_all
  ultimately have V3: "uint v3 = lanes (pcn a0) (pcn a1) (pcn a2) (pcn a3)"
    by (simp add: and_15)
  txt \<open>last step: the sum of the four bytes in the top byte of the product\<close>
  note p = pcn_bounds
  have "uint (drop_bit 24 (v3 * 0x1010101)) = (lanes (pcn a0) (pcn a1) (pcn a2) (pcn a3) * 0x1010101) mod 2 ^ 32 div 2 ^ 24"
    by (simp add: uint_drop_bit_u32 uint_word_ariths V3)
  then have "uint (drop_bit 24 (v3 * 0x1010101)) = pcn a0 + pcn a1 + pcn a2 + pcn a3"
    using p by (simp only: lanes_mult)
  then have "uint (popcount_word v0) = int (bits_in_byte b0 + bits_in_byte b1 + bits_in_byte b2 + bits_in_byte b3)"
    by (simp add: popcount_word_def Let_def v3_def v2_def v1_def t1_def bits_in_byte_pcn a0_def a1_def a2_def a3_def)
  then have "popcount_word v0 = word_of_int (int (bits_in_byte b0 + bits_in_byte b1 + bits_in_byte b2 + bits_in_byte b3))"
    by (metis word_of_int_uint)
  then show ?thesis by (simp add: v0_def)
qed

lemma load_u32_bits:
  assumes "p + 4 \<le> length mem"
  shows "\<exists>v. load_u32 e mem p = Some v \<and>
    popcount_word v = of_nat (naive_count_bits (take 4 (drop p mem)))"
proof -
  have t: "take 4 (drop p mem) = [mem ! p, mem ! (p + 1), mem ! (p + 2), mem ! (p + 3)]"
    using assms by (auto simp add: list_eq_iff_nth_eq nth_Cons' less_Suc_eq numeral_eq_Suc)
  show ?thesis
    using assms unfolding t
    by (cases e) (simp_all add: load_u32_def popcount_word_bytes naive_count_bits_def add_ac)
qed

lemma naive_count_bits_append:
  "naive_count_bits (xs @ ys) = naive_count_bits xs + naive_count_bits ys"
  by (simp add: naive_count_bits_def)

lemma count_loop_eq:
  "p + 4 * i \<le> length mem \<Longrightarrow>
   count_loop e i p ret mem = Some (ret + of_nat (naive_count_bits (take (4 * i) (drop p mem))))"
proof (induction i arbitrary: p ret)
  case 0
  then show ?case by (simp add: naive_count_bits_def)
next
  case (Suc i)
  from Suc.prems have p: "p + 4 \<le> length mem" and q: "(p + 4) + 4 * i \<le> length mem"
    by simp_all
  obtain v where v: "load_u32 e mem p = Some v"
      "popcount_word v = of_nat (naive_count_bits (take 4 (drop p mem)))"
    using load_u32_bits [OF p] by blast
  have "take (4 * Suc i) (drop p mem) = take 4 (drop p mem) @ take (4 * i) (drop (p + 4) mem)"
    by (simp add: take_add add.commute)
  then have "naive_count_bits (take (4 * Suc i) (drop p mem))
      = naive_count_bits (take 4 (drop p mem)) + naive_count_bits (take (4 * i) (drop (p + 4) mem))"
    by (simp only: naive_count_bits_append)
  then show ?case
    using v Suc.IH [OF q] by (simp add: add.assoc)
qed

lemma count_bits_eq:
  assumes "4 dvd unat MAP_SIZE" "length mem = unat MAP_SIZE"
  shows "count_bits e MAP_SIZE mem = Some (of_nat (naive_count_bits mem))"
proof -
  have "unat (drop_bit 2 MAP_SIZE) = drop_bit 2 (take_bit LENGTH(32) (unat MAP_SIZE))"
    by (rule unsigned_drop_bit_eq)
  also have "take_bit LENGTH(32) (unat MAP_SIZE) = unat MAP_SIZE"
    by (rule take_bit_nat_eq_self) (rule unsigned_less)
  finally have "unat (drop_bit 2 MAP_SIZE) = unat MAP_SIZE div 4"
    by (simp add: drop_bit_eq_div)
  then have "4 * unat (drop_bit 2 MAP_SIZE) = length mem"
    using assms by simp
  then show ?thesis
    using count_loop_eq [of 0 "unat (drop_bit 2 MAP_SIZE)" mem e 0]
    by (simp add: count_bits_def)
qed

lemma bits_in_byte_le: "bits_in_byte b \<le> 8"
  unfolding bits_in_byte_def using length_filter_le [of "bit b" "[0..<8]"] by simp

lemma naive_count_bits_le: "naive_count_bits mem \<le> 8 * length mem"
  unfolding naive_count_bits_def
  by (induction mem) (use bits_in_byte_le in \<open>simp_all add: le_Suc_eq add_le_mono\<close>)

lemma bits_in_byte_pos: "b \<noteq> 0 \<Longrightarrow> 1 \<le> bits_in_byte b"
proof -
  assume "b \<noteq> 0"
  then obtain k where k: "bit b k" by (auto simp add: bit_eq_iff)
  then have "k < 8" using bit_imp_le_length [of b k] by simp
  then have "k \<in> set (filter (bit b) [0..<8])" using k by simp
  then have "filter (bit b) [0..<8] \<noteq> []" by (metis empty_iff list.set(1))
  then show ?thesis by (simp add: bits_in_byte_def Suc_le_eq)
qed

lemma bits_in_byte_0: "bits_in_byte 0 = 0"
  by (simp add: bits_in_byte_def)

text \<open>
  C3. On a bitmap of \<open>MAP_SIZE\<close> bytes, \<open>MAP_SIZE\<close> a multiple of 4, the word-parallel
  count of \<^verbatim>\<open>count_bits\<close> is the naive count of the set bits of all bytes, for either
  byte order. The bound on \<open>MAP_SIZE\<close> keeps the \<^verbatim>\<open>u32\<close> accumulator below \<open>2 ^ 32\<close>.
\<close>

theorem count_bits_refines_naive:
  assumes "4 dvd unat MAP_SIZE" and "unat MAP_SIZE < 2 ^ 29" and "length mem = unat MAP_SIZE"
  shows "map_option unat (count_bits e MAP_SIZE mem) = Some (naive_count_bits mem)"
proof -
  have "naive_count_bits mem \<le> 8 * length mem" by (rule naive_count_bits_le)
  then have "naive_count_bits mem < 2 ^ 32" using assms by simp
  then have "unat (of_nat (naive_count_bits mem) :: u32) = naive_count_bits mem"
    by (simp add: unat_of_nat)
  then show ?thesis using assms by (simp add: count_bits_eq)
qed

theorem count_bits_refines_naive_witness:
  "4 dvd unat (8 :: u32) \<and> unat (8 :: u32) < 2 ^ 29
   \<and> length [3, 0, 255, 1, 0, 0, 128, 7 :: u8] = unat (8 :: u32)
   \<and> map_option unat (count_bits Big_endian 8 [3, 0, 255, 1, 0, 0, 128, 7]) = Some 15
   \<and> naive_count_bits [3, 0, 255, 1, 0, 0, 128, 7] = 15"
proof -
  have h1: "4 dvd unat (8 :: u32)" by simp
  have h2: "unat (8 :: u32) < 2 ^ 29" by simp
  have h3: "length [3, 0, 255, 1, 0, 0, 128, 7 :: u8] = unat (8 :: u32)" by simp
  have n: "naive_count_bits [3, 0, 255, 1, 0, 0, 128, 7] = 15"
    by (simp add: naive_count_bits_def bits_in_byte_def upt_8)
  show ?thesis
    using count_bits_refines_naive [OF h1 h2 h3, of Big_endian] h1 h2 h3 n by simp
qed

lemma naive_count_bits_single:
  "i < n \<Longrightarrow> naive_count_bits ((replicate n 0)[i := v]) = bits_in_byte v"
  by (simp add: upd_conv_take_nth_drop naive_count_bits_def bits_in_byte_0 min_def)

text \<open>
  C2, as the code has it. \<^verbatim>\<open>count_bits\<close> counts bits, not bytes: on an all-zero bitmap
  it returns 0, and on a bitmap whose only non-zero byte is \<open>v\<close> it returns the number of
  bits set in \<open>v\<close>, which is between 1 and 8.
\<close>

theorem count_bits_single_byte:
  assumes "4 dvd unat MAP_SIZE"
  shows "count_bits e MAP_SIZE (replicate (unat MAP_SIZE) 0) = Some 0 \<and>
    (i < unat MAP_SIZE \<and> v \<noteq> 0 \<longrightarrow>
       map_option unat (count_bits e MAP_SIZE ((replicate (unat MAP_SIZE) 0)[i := v]))
         = Some (bits_in_byte v)
       \<and> 1 \<le> bits_in_byte v \<and> bits_in_byte v \<le> 8)"
proof -
  have "naive_count_bits (replicate (unat MAP_SIZE) 0) = 0"
    by (simp add: naive_count_bits_def bits_in_byte_0)
  then have zero: "count_bits e MAP_SIZE (replicate (unat MAP_SIZE) 0) = Some 0"
    using assms by (simp add: count_bits_eq)
  have one: "map_option unat (count_bits e MAP_SIZE ((replicate (unat MAP_SIZE) 0)[i := v]))
         = Some (bits_in_byte v)" if "i < unat MAP_SIZE"
  proof -
    have "bits_in_byte v < 2 ^ 32" using bits_in_byte_le [of v] by simp
    then have "unat (of_nat (bits_in_byte v) :: u32) = bits_in_byte v"
      by (simp add: unat_of_nat)
    then show ?thesis
      using assms that by (simp add: count_bits_eq naive_count_bits_single)
  qed
  show ?thesis using zero one bits_in_byte_pos [of v] bits_in_byte_le [of v] by simp
qed

theorem count_bits_single_byte_witness:
  "4 dvd unat (8 :: u32) \<and> (5 :: nat) < unat (8 :: u32) \<and> (7 :: u8) \<noteq> 0
   \<and> count_bits Little_endian 8 [0, 0, 0, 0, 0, 0, 0, 0] = Some 0
   \<and> map_option unat (count_bits Little_endian 8 [0, 0, 0, 0, 0, 7, 0, 0]) = Some 3
   \<and> bits_in_byte 7 = 3"
proof -
  have h1: "4 dvd unat (8 :: u32)" by simp
  have h2: "(5 :: nat) < unat (8 :: u32)" by simp
  have h3: "(7 :: u8) \<noteq> 0" by simp
  have r0: "replicate (unat (8 :: u32)) (0 :: u8) = [0, 0, 0, 0, 0, 0, 0, 0]" by code_simp
  have r1: "[0, 0, 0, 0, 0, 0, 0, 0 :: u8][5 := 7] = [0, 0, 0, 0, 0, 7, 0, 0]" by code_simp
  have n: "bits_in_byte 7 = 3" by (simp add: bits_in_byte_def upt_8)
  show ?thesis
    using count_bits_single_byte [OF h1, of Little_endian 5 7] h1 h2 h3
    unfolding r0 r1 n by simp
qed

theorem count_bits_single_byte_not_one:
  "count_bits Little_endian 65536 (3 # replicate 65535 0) = Some 2
   \<and> count_bits Little_endian 65536 (3 # replicate 65535 0) \<noteq> Some 1"
proof -
  have "naive_count_bits (3 # replicate 65535 0) = 2"
    by (simp add: naive_count_bits_def bits_in_byte_def upt_8)
  moreover have "count_bits Little_endian 65536 (3 # replicate 65535 0)
      = Some (of_nat (naive_count_bits (3 # replicate 65535 0)))"
    by (rule count_bits_eq) simp_all
  ultimately show ?thesis by simp
qed

section \<open>The tuple report\<close>

lemma show_loop_eq:
  "n \<le> length mem \<Longrightarrow>
   show_loop n i mem out =
     Some (out @ map (\<lambda>j. Tuple_line (tuple_line j (mem ! j))) (filter (\<lambda>j. mem ! j \<noteq> 0) [i..<n]))"
proof (induction n i mem out rule: show_loop.induct)
  case (1 n i mem out)
  show ?case
  proof (cases "i < n")
    case True
    then have i: "i < length mem" using "1.prems" by simp
    have u: "[i..<n] = i # [Suc i..<n]" using True by (simp add: upt_conv_Cons)
    show ?thesis
      using True i "1.IH" [OF True i "1.prems"]
      by (subst show_loop.simps) (simp add: u)
  next
    case False
    then show ?thesis by (subst show_loop.simps) simp
  qed
qed

lemma show_tuples_eq:
  assumes "length mem = unat MAP_SIZE"
  shows "show_tuples MAP_SIZE mem out =
    Some (map classify_byte mem,
          out @ map (\<lambda>i. Tuple_line (tuple_line i (classify_byte (mem ! i))))
                  (filter (\<lambda>i. classify_byte (mem ! i) \<noteq> 0) [0..<unat MAP_SIZE]))"
proof -
  have "show_loop (unat MAP_SIZE) 0 (map classify_byte mem) out =
     Some (out @ map (\<lambda>j. Tuple_line (tuple_line j (map classify_byte mem ! j)))
             (filter (\<lambda>j. map classify_byte mem ! j \<noteq> 0) [0..<unat MAP_SIZE]))"
    by (rule show_loop_eq) (simp add: assms)
  moreover have "map (\<lambda>j. Tuple_line (tuple_line j (map classify_byte mem ! j)))
             (filter (\<lambda>j. map classify_byte mem ! j \<noteq> 0) [0..<unat MAP_SIZE])
      = map (\<lambda>i. Tuple_line (tuple_line i (classify_byte (mem ! i))))
                  (filter (\<lambda>i. classify_byte (mem ! i) \<noteq> 0) [0..<unat MAP_SIZE])"
  proof -
    have f: "filter (\<lambda>j. map classify_byte mem ! j \<noteq> 0) [0..<unat MAP_SIZE]
        = filter (\<lambda>i. classify_byte (mem ! i) \<noteq> 0) [0..<unat MAP_SIZE]"
      using assms by (intro filter_cong) simp_all
    show ?thesis
      unfolding f using assms by (intro map_cong) simp_all
  qed
  ultimately show ?thesis
    using assms by (simp add: show_tuples_def classify_counts_map)
qed

lemma length_dec_pos: "0 < length (dec n)"
  by (subst dec.simps) simp

lemma length_dec_le: "0 < k \<Longrightarrow> n < 10 ^ k \<Longrightarrow> length (dec n) \<le> k"
proof (induction k arbitrary: n)
  case 0
  then show ?case by simp
next
  case (Suc k)
  show ?case
  proof (cases "n < 10")
    case True
    then show ?thesis by (subst dec.simps) simp
  next
    case False
    then have k: "0 < k" using Suc.prems by (cases k) simp_all
    have "n div 10 < 10 ^ k" using Suc.prems by (simp add: less_mult_imp_div_less mult.commute)
    then have "length (dec (n div 10)) \<le> k" using k by (rule Suc.IH [rotated])
    then show ?thesis using False by (subst dec.simps) simp
  qed
qed

lemma length_fmt_05u: "i < 100000 \<Longrightarrow> length (fmt_05u i) = 5"
  using length_dec_le [of 5 i] by (simp add: fmt_05u_def)

lemma tuple_report_append: "tuple_report (xs @ ys) = tuple_report xs @ tuple_report ys"
  by (induction xs rule: tuple_report.induct) simp_all

lemma tuple_report_lines: "tuple_report (map Tuple_line ts) = ts"
  by (induction ts) simp_all

lemma digit_value_digit_char: "d < 10 \<Longrightarrow> digit_value (digit_char d) = d"
proof -
  assume "d < 10"
  then have "d \<in> {0, 1, 2, 3, 4, 5, 6, 7, 8, 9}" by auto
  then show ?thesis
    by (elim insertE emptyE) (simp_all add: digit_value_def digit_char_def)
qed

lemma digit_char_in: "d < 10 \<Longrightarrow> digit_char d \<in> set ''0123456789''"
  unfolding digit_char_def by (rule nth_mem) simp

lemma read_decimal_snoc: "read_decimal (s @ [c]) = 10 * read_decimal s + digit_value c"
  by (simp add: read_decimal_def)

lemma read_decimal_dec: "read_decimal (dec n) = n"
proof (induction n rule: dec.induct)
  case (1 n)
  show ?case
  proof (cases "n < 10")
    case True
    then show ?thesis
      by (subst dec.simps) (simp add: read_decimal_def digit_value_digit_char)
  next
    case False
    then have "read_decimal (dec (n div 10)) = n div 10" by (rule "1.IH")
    then show ?thesis
      using False by (subst dec.simps) (simp add: read_decimal_snoc digit_value_digit_char)
  qed
qed

lemma digits_dec: "set (dec n) \<subseteq> set ''0123456789''"
proof (induction n rule: dec.induct)
  case (1 n)
  show ?case
  proof (cases "n < 10")
    case True
    then show ?thesis using digit_char_in [of n] by (subst dec.simps) simp
  next
    case False
    then have "set (dec (n div 10)) \<subseteq> set ''0123456789''" by (rule "1.IH")
    moreover have "digit_char (n mod 10) \<in> set ''0123456789''" by (rule digit_char_in) simp
    ultimately show ?thesis using False by (subst dec.simps) simp
  qed
qed

lemma read_decimal_zeros: "read_decimal (replicate k CHR ''0'' @ s) = read_decimal s"
proof -
  have "foldl (\<lambda>a c. 10 * a + digit_value c) 0 (replicate k CHR ''0'') = 0"
    by (induction k) (simp_all add: digit_value_def)
  then show ?thesis by (simp add: read_decimal_def)
qed

lemma read_decimal_fmt_05u: "read_decimal (fmt_05u n) = n"
  by (simp add: fmt_05u_def read_decimal_zeros read_decimal_dec)

lemma digits_fmt_05u: "set (fmt_05u n) \<subseteq> set ''0123456789''"
  using digits_dec [of n] by (auto simp add: fmt_05u_def)

text \<open>
  C5. After the classification, \<^verbatim>\<open>show_tuples\<close> prints one line for each entry of the
  bitmap that is not zero and none for an entry that is zero, in ascending order of the
  index from 0 to \<open>MAP_SIZE - 1\<close>. A line is the index in decimal, padded with zeros to
  five digits (exactly five for an index below 100000), a slash, the classified value in
  decimal and a newline.
\<close>

theorem show_tuples_report:
  assumes "length bitmap = unat MAP_SIZE"
  shows "show_tuples MAP_SIZE bitmap out =
      Some (map classify_byte bitmap,
            out @ map (\<lambda>i. Tuple_line (fmt_05u i @ ''/''
                                @ fmt_u (unat (classify_byte (bitmap ! i))) @ [CHR 0x0A]))
                    (filter (\<lambda>i. classify_byte (bitmap ! i) \<noteq> 0) [0..<unat MAP_SIZE]))
    \<and> (i < 100000 \<longrightarrow> length (fmt_05u i) = 5)
    \<and> read_decimal (fmt_05u i) = i \<and> set (fmt_05u i) \<subseteq> set ''0123456789''
    \<and> read_decimal (fmt_u n) = n \<and> set (fmt_u n) \<subseteq> set ''0123456789''"
proof -
  have A: "show_tuples MAP_SIZE bitmap out =
      Some (map classify_byte bitmap,
            out @ map (\<lambda>i. Tuple_line (fmt_05u i @ ''/''
                                @ fmt_u (unat (classify_byte (bitmap ! i))) @ [CHR 0x0A]))
                    (filter (\<lambda>i. classify_byte (bitmap ! i) \<noteq> 0) [0..<unat MAP_SIZE]))"
    using show_tuples_eq [OF assms, of out] by (simp add: tuple_line_def)
  have B: "i < 100000 \<longrightarrow> length (fmt_05u i) = 5"
    by (simp add: length_fmt_05u)
  have C: "read_decimal (fmt_05u i) = i" by (rule read_decimal_fmt_05u)
  have D: "set (fmt_05u i) \<subseteq> set ''0123456789''" by (rule digits_fmt_05u)
  have E: "read_decimal (fmt_u n) = n" unfolding fmt_u_def by (rule read_decimal_dec)
  have F: "set (fmt_u n) \<subseteq> set ''0123456789''" unfolding fmt_u_def by (rule digits_dec)
  show ?thesis by (intro conjI A B C D E F)
qed

theorem show_tuples_report_witness:
  "length [0, 0, 0, 0, 0, 0, 0, 0, 0, 0, 1, 0, 0, 0, 0, 0, 0, 0, 0, 0, 5, 0, 0, 0 :: u8]
     = unat (24 :: u32)
   \<and> show_tuples 24 [0, 0, 0, 0, 0, 0, 0, 0, 0, 0, 1, 0, 0, 0, 0, 0, 0, 0, 0, 0, 5, 0, 0, 0] []
     = Some ([0, 0, 0, 0, 0, 0, 0, 0, 0, 0, 1, 0, 0, 0, 0, 0, 0, 0, 0, 0, 8, 0, 0, 0],
             [Tuple_line (''00010/1'' @ [CHR 0x0A]), Tuple_line (''00020/8'' @ [CHR 0x0A])])
   \<and> (20 :: nat) < 100000 \<and> length (fmt_05u 20) = 5"
proof -
  let ?bits = "[0, 0, 0, 0, 0, 0, 0, 0, 0, 0, 1, 0, 0, 0, 0, 0, 0, 0, 0, 0, 5, 0, 0, 0 :: u8]"
  have h: "length ?bits = unat (24 :: u32)" by simp
  have e: "(map classify_byte ?bits,
            [] @ map (\<lambda>i. Tuple_line (fmt_05u i @ ''/''
                                @ fmt_u (unat (classify_byte (?bits ! i))) @ [CHR 0x0A]))
                    (filter (\<lambda>i. classify_byte (?bits ! i) \<noteq> 0) [0..<unat (24 :: u32)]))
      = ([0, 0, 0, 0, 0, 0, 0, 0, 0, 0, 1, 0, 0, 0, 0, 0, 0, 0, 0, 0, 8, 0, 0, 0],
             [Tuple_line (''00010/1'' @ [CHR 0x0A]), Tuple_line (''00020/8'' @ [CHR 0x0A])])"
    by code_simp
  show ?thesis
    using show_tuples_report [OF h, of "[]" 20 0] h unfolding e by simp
qed

text \<open>
  C10. The classification maps a byte to 0 exactly when the byte is 0. So
  \<^verbatim>\<open>classify_counts\<close> leaves the indices of the non-zero entries as they are, and the
  report has a line for exactly the indices whose raw count is not zero.
\<close>

theorem classify_counts_preserves_support:
  assumes "length bitmap = unat MAP_SIZE"
  shows "(classify_byte v = 0 \<longleftrightarrow> v = 0)
    \<and> map_option (\<lambda>mem. filter (\<lambda>i. mem ! i \<noteq> 0) [0..<unat MAP_SIZE])
         (classify_counts MAP_SIZE bitmap)
       = Some (filter (\<lambda>i. bitmap ! i \<noteq> 0) [0..<unat MAP_SIZE])
    \<and> map_option (\<lambda>r. tuple_report (snd r)) (show_tuples MAP_SIZE bitmap [])
       = Some (map (\<lambda>i. tuple_line i (classify_byte (bitmap ! i)))
                 (filter (\<lambda>i. bitmap ! i \<noteq> 0) [0..<unat MAP_SIZE]))"
proof -
  have f: "filter (\<lambda>i. map classify_byte bitmap ! i \<noteq> 0) [0..<unat MAP_SIZE]
      = filter (\<lambda>i. bitmap ! i \<noteq> 0) [0..<unat MAP_SIZE]"
    using assms by (intro filter_cong) (simp_all add: classify_byte_zero_iff)
  have g: "filter (\<lambda>i. classify_byte (bitmap ! i) \<noteq> 0) [0..<unat MAP_SIZE]
      = filter (\<lambda>i. bitmap ! i \<noteq> 0) [0..<unat MAP_SIZE]"
    by (simp add: classify_byte_zero_iff)
  have m: "map (\<lambda>i. Tuple_line (tuple_line i (classify_byte (bitmap ! i)))) js
      = map Tuple_line (map (\<lambda>i. tuple_line i (classify_byte (bitmap ! i))) js)" for js
    by simp
  show ?thesis
    using assms
    by (simp add: classify_byte_zero_iff classify_counts_map f show_tuples_eq g
        tuple_report_lines m del: map_map)
qed

theorem classify_counts_preserves_support_witness:
  "length [0, 3, 0, 0, 200, 1, 0, 9 :: u8] = unat (8 :: u32)
   \<and> classify_counts 8 [0, 3, 0, 0, 200, 1, 0, 9] = Some [0, 4, 0, 0, 128, 1, 0, 16]
   \<and> filter (\<lambda>i. [0, 4, 0, 0, 128, 1, 0, 16 :: u8] ! i \<noteq> 0) [0..<8] = [1, 4, 5, 7]
   \<and> filter (\<lambda>i. [0, 3, 0, 0, 200, 1, 0, 9 :: u8] ! i \<noteq> 0) [0..<8] = [1, 4, 5, 7]
   \<and> map_option (\<lambda>r. tuple_report (snd r)) (show_tuples 8 [0, 3, 0, 0, 200, 1, 0, 9] [])
       = Some [''00001/4'' @ [CHR 0x0A], ''00004/128'' @ [CHR 0x0A],
               ''00005/1'' @ [CHR 0x0A], ''00007/16'' @ [CHR 0x0A]]"
proof -
  let ?bits = "[0, 3, 0, 0, 200, 1, 0, 9 :: u8]"
  have h: "length ?bits = unat (8 :: u32)" by simp
  have c: "classify_counts 8 ?bits = Some [0, 4, 0, 0, 128, 1, 0, 16]" by code_simp
  have f1: "filter (\<lambda>i. [0, 4, 0, 0, 128, 1, 0, 16 :: u8] ! i \<noteq> 0) [0..<8] = [1, 4, 5, 7]"
    by code_simp
  have f2: "filter (\<lambda>i. ?bits ! i \<noteq> 0) [0..<unat (8 :: u32)] = [1, 4, 5, 7]"
    by code_simp
  have f3: "filter (\<lambda>i. ?bits ! i \<noteq> 0) [0..<8] = [1, 4, 5, 7]"
    by code_simp
  have l: "map (\<lambda>i. tuple_line i (classify_byte (?bits ! i))) [1, 4, 5, 7]
      = [''00001/4'' @ [CHR 0x0A], ''00004/128'' @ [CHR 0x0A],
               ''00005/1'' @ [CHR 0x0A], ''00007/16'' @ [CHR 0x0A]]"
    by code_simp
  show ?thesis
    using classify_counts_preserves_support [OF h, of 0] h c f1 f3
    unfolding f2 l by simp
qed

section \<open>The run of the tool\<close>

lemma tuple_report_snoc [simp]:
  "tuple_report (xs @ [m]) = tuple_report xs @ tuple_report [m]"
  by (rule tuple_report_append)

lemma show_loop_prefix:
  "show_loop n i mem out = map_option ((@) out) (show_loop n i mem [])"
proof (induction k \<equiv> "n - i" arbitrary: i out)
  case 0
  then have "\<not> i < n" by simp
  then show ?case
    by (subst show_loop.simps, subst (2) show_loop.simps) simp
next
  case (Suc k)
  then have n: "i < n" and k: "k = n - Suc i" by simp_all
  show ?case
  proof (cases "i < length mem")
    case True
    let ?l = "Tuple_line (tuple_line i (mem ! i))"
    have a: "show_loop n (Suc i) mem (out @ [?l])
        = map_option ((@) (out @ [?l])) (show_loop n (Suc i) mem [])"
      using k by (rule Suc.hyps(1))
    have b: "show_loop n (Suc i) mem [?l] = map_option ((@) [?l]) (show_loop n (Suc i) mem [])"
      using k by (rule Suc.hyps(1))
    have c: "show_loop n (Suc i) mem out = map_option ((@) out) (show_loop n (Suc i) mem [])"
      using k by (rule Suc.hyps(1))
    show ?thesis
      using True n
      by (subst show_loop.simps, subst (2) show_loop.simps)
        (cases "show_loop n (Suc i) mem []"; simp add: a b c)
  next
    case False
    then show ?thesis
      using n by (subst show_loop.simps, subst (2) show_loop.simps) simp
  qed
qed

lemma show_tuples_prefix:
  "show_tuples M bits out = map_option (\<lambda>(mem, ls). (mem, out @ ls)) (show_tuples M bits [])"
  unfolding show_tuples_def
  by (cases "classify_counts M bits")
    (simp_all add: show_loop_prefix [of _ _ _ out] option.map_comp comp_def split: option.splits)

lemmas proc_defs = SAYF_def sys_def remove_shm_def exit_with_def FATAL_def PFATAL_def

lemma setup_shm_Inl:
  assumes "setup_shm cfg w s = Inl r"
  shows "fst r = Exited 1 \<and> printed (snd r) = printed s
    \<and> (shmget_ret w < 0 \<or> shmat_ret w = Null_addr)"
  using assms by (auto simp add: setup_shm_def Let_def proc_defs split: if_splits)

lemma setup_shm_Inr:
  assumes "setup_shm cfg w s = Inr s'"
  shows "printed s' = printed s \<and> be_quiet s' = be_quiet s \<and> sink_output s' = sink_output s
    \<and> diagnostics s' = diagnostics s \<and> at_exit s'
    \<and> trace_bits s' = (if shmat_ret w = Attached then replicate (unat (cfg_MAP_SIZE cfg)) 0 else [])
    \<and> 0 \<le> shmget_ret w \<and> shmat_ret w \<noteq> Null_addr"
  using assms by (auto simp add: setup_shm_def Let_def proc_defs split: if_splits)

lemma forkserver_child_result:
  "fst (forkserver_child cfg w args s) \<noteq> Exited 0
   \<and> printed (snd (forkserver_child cfg w args s)) = printed s"
  by (simp add: forkserver_child_def sink_child_output_def Let_def proc_defs)

lemma run_target_Inl:
  assumes "run_target cfg w args s = Inl r"
  shows "fst r \<noteq> Exited 0 \<and> printed (snd r) = printed s
    \<and> \<not> (pipe_st_ret w = 0 \<and> pipe_ctl_ret w = 0 \<and> 0 < fork_ret w \<and> write_ret w = 4 \<and> reads_ok w)"
  using assms forkserver_child_result [of cfg w args]
  by (auto simp add: run_target_def Let_def proc_defs reads_ok_def split: if_splits)

lemma run_target_Inr:
  assumes "run_target cfg w args s = Inr s'"
  shows "pipe_st_ret w = 0 \<and> pipe_ctl_ret w = 0 \<and> 0 < fork_ret w \<and> write_ret w = 4 \<and> reads_ok w
    \<and> tuple_report (printed s') = tuple_report (printed s)
    \<and> trace_bits s' = map (hits w) [0..<length (trace_bits s)]
    \<and> be_quiet s' = be_quiet s \<and> sink_output s' = sink_output s
    \<and> diagnostics s' = diagnostics s \<and> at_exit s' = at_exit s"
  using assms
  by (auto simp add: run_target_def Let_def proc_defs reads_ok_def split: if_splits)

lemma main_stages:
  "main cfg e w =
     (if int (length (argv w)) < 2 then usage (arg0 (argv w)) (main_banner w)
      else
        case setup_shm cfg w (main_banner w) of
          Inl r \<Rightarrow> r
        | Inr s \<Rightarrow>
            (case run_target cfg w (tl (argv w)) (main_before_run w s) of
               Inl r \<Rightarrow> r
             | Inr s \<Rightarrow> main_report cfg e s))"
  by (simp only: main_def main_banner_def main_before_run_def main_report_def Let_def)

lemma main_banner_fields:
  "tuple_report (printed (main_banner w)) = [] \<and> diagnostics (main_banner w) = []
   \<and> calls (main_banner w) = [] \<and> \<not> at_exit (main_banner w) \<and> trace_bits (main_banner w) = []"
  by (simp add: main_banner_def SAYF_def initial_def)

lemma main_before_run_fields:
  "tuple_report (printed (main_before_run w s)) = tuple_report (printed s)
   \<and> diagnostics (main_before_run w s) = diagnostics s
   \<and> calls (main_before_run w s) = calls s
   \<and> at_exit (main_before_run w s) = at_exit s
   \<and> trace_bits (main_before_run w s) = trace_bits s"
  by (simp add: main_before_run_def SAYF_def Let_def)

lemma main_no_handshake:
  assumes "\<not> handshake_completed w"
  shows "fst (main cfg e w) \<noteq> Exited 0 \<and> tuple_report (printed (snd (main cfg e w))) = []"
proof (cases "length (argv w) < 2")
  case True
  then show ?thesis
    using main_banner_fields [of w] by (simp add: main_stages usage_def proc_defs)
next
  case argc: False
  show ?thesis
  proof (cases "setup_shm cfg w (main_banner w)")
    case (Inl r)
    then show ?thesis
      using argc main_banner_fields [of w] setup_shm_Inl [OF Inl]
      by (simp add: main_stages)
  next
    case (Inr s1)
    note f1 = setup_shm_Inr [OF Inr]
    show ?thesis
    proof (cases "run_target cfg w (tl (argv w)) (main_before_run w s1)")
      case (Inl r)
      then show ?thesis
        using argc \<open>setup_shm cfg w (main_banner w) = Inr s1\<close> f1 main_banner_fields [of w]
          main_before_run_fields [of w s1] run_target_Inl [OF Inl]
        by (simp add: main_stages)
    next
      case (Inr s4)
      have "handshake_completed w"
        using argc f1 run_target_Inr [OF Inr]
        by (simp add: handshake_completed_def startup_ok_def)
      with assms show ?thesis by simp
    qed
  qed
qed

lemma main_after_handshake:
  assumes "handshake_completed w"
  shows "\<exists>s. trace_bits s = raw_bitmap cfg w \<and> diagnostics s = []
    \<and> tuple_report (printed s) = [] \<and> at_exit s \<and> main cfg e w = main_report cfg e s"
proof -
  from assms have c: "2 \<le> length (argv w)" "0 \<le> shmget_ret w" "shmat_ret w \<noteq> Null_addr"
    "pipe_st_ret w = 0" "pipe_ctl_ret w = 0" "0 < fork_ret w" "write_ret w = 4" "reads_ok w"
    by (simp_all add: handshake_completed_def startup_ok_def)
  obtain s1 where s1: "setup_shm cfg w (main_banner w) = Inr s1"
    using c setup_shm_Inl [of cfg w "main_banner w"]
    by (cases "setup_shm cfg w (main_banner w)") auto
  note f1 = setup_shm_Inr [OF s1]
  obtain s4 where s4: "run_target cfg w (tl (argv w)) (main_before_run w s1) = Inr s4"
    using c run_target_Inl [of cfg w "tl (argv w)" "main_before_run w s1"]
    by (cases "run_target cfg w (tl (argv w)) (main_before_run w s1)") auto
  note f4 = run_target_Inr [OF s4]
  have "trace_bits s4 = raw_bitmap cfg w"
    using f1 f4 main_before_run_fields [of w s1] by (simp add: raw_bitmap_def)
  moreover have "diagnostics s4 = []" "tuple_report (printed s4) = []" "at_exit s4"
    using f1 f4 main_before_run_fields [of w s1] main_banner_fields [of w] by simp_all
  moreover have "main cfg e w = main_report cfg e s4"
    using c(1) by (simp add: main_stages s1 s4)
  ultimately show ?thesis by blast
qed

lemma replicate_small:
  "replicate 3 x = [x, x, x]" "replicate 2 x = [x, x]" "replicate 1 x = [x]"
  by (simp_all add: numeral_eq_Suc)

lemma run_target_parent_fail:
  assumes "pipe_st_ret w = 0" "pipe_ctl_ret w = 0" "0 < fork_ret w"
    and "\<not> (write_ret w = 4 \<and> reads_ok w)"
  shows "\<exists>s'. run_target cfg w args s = Inl (Exited 1, s')
    \<and> diagnostics s' = diagnostics s @ [''No instrumentation detected or fork server fault'']
    \<and> printed s' = printed s
    \<and> calls s' = calls s @ [Pipe, Pipe, Fork, Close, Close, Write_ctl]
         @ replicate (if write_ret w = 4 then reads_made w else 0) Read_st
         @ (if at_exit s then [Shmctl_rmid] else [])"
  using assms
  by (auto simp add: run_target_def Let_def proc_defs reads_ok_def reads_made_def
      replicate_small not_less)

lemma run_target_parent_ok:
  assumes "pipe_st_ret w = 0" "pipe_ctl_ret w = 0" "0 < fork_ret w"
    and "write_ret w = 4" "reads_ok w"
  shows "\<exists>s'. run_target cfg w args s = Inr s'
    \<and> diagnostics s' = diagnostics s
    \<and> child_pid s' = snd (st_read w 1)
    \<and> trace_bits s' = map (hits w) [0..<length (trace_bits s)]
    \<and> calls s' = calls s @ [Pipe, Pipe, Fork, Close, Close, Write_ctl, Read_st, Read_st, Read_st]"
  using assms
  by (simp add: run_target_def Let_def proc_defs reads_ok_def not_le)

lemma bits_in_byte_zero_iff: "bits_in_byte b = 0 \<longleftrightarrow> b = 0"
  by (metis bits_in_byte_pos bits_in_byte_0 not_one_le_zero)

lemma naive_count_bits_zero_iff: "naive_count_bits mem = 0 \<longleftrightarrow> (\<forall>b\<in>set mem. b = 0)"
  by (induction mem) (simp_all add: naive_count_bits_def bits_in_byte_zero_iff)

lemma of_nat_u32_zero_iff: "n < 2 ^ 32 \<Longrightarrow> (of_nat n :: u32) = 0 \<longleftrightarrow> n = 0"
proof -
  assume "n < 2 ^ 32"
  then have "unat (of_nat n :: u32) = n" by (simp add: unat_of_nat)
  then show ?thesis by (metis unat_eq_0)
qed

lemma count_bits_nil: "count_bits e M [] = None \<or> count_bits e M [] = Some 0"
  by (cases "unat (drop_bit 2 M)") (simp_all add: count_bits_def load_u32_def)

lemma main_report_faulted:
  "count_bits e (cfg_MAP_SIZE cfg) (trace_bits s) = None \<Longrightarrow>
   fst (main_report cfg e s) = Faulted
   \<and> tuple_report (printed (snd (main_report cfg e s))) = tuple_report (printed s)"
  by (simp add: main_report_def Let_def SAYF_def)

lemma main_report_empty:
  "count_bits e (cfg_MAP_SIZE cfg) (trace_bits s) = Some 0 \<Longrightarrow>
   fst (main_report cfg e s) = Exited 1
   \<and> diagnostics (snd (main_report cfg e s))
       = diagnostics s @ [''No instrumentation data recorded'']
   \<and> tuple_report (printed (snd (main_report cfg e s))) = tuple_report (printed s)"
  by (simp add: main_report_def Let_def proc_defs)

lemma main_report_shown:
  assumes "count_bits e (cfg_MAP_SIZE cfg) (trace_bits s) = Some n" "n \<noteq> 0"
  shows "(case show_tuples (cfg_MAP_SIZE cfg) (trace_bits s) [] of
            None \<Rightarrow> fst (main_report cfg e s) = Faulted
                 \<and> tuple_report (printed (snd (main_report cfg e s))) = tuple_report (printed s)
          | Some (mem, ls) \<Rightarrow> fst (main_report cfg e s) = Exited 0
                 \<and> diagnostics (snd (main_report cfg e s)) = diagnostics s
                 \<and> tuple_report (printed (snd (main_report cfg e s)))
                     = tuple_report (printed s) @ tuple_report ls)"
proof -
  have p: "show_tuples (cfg_MAP_SIZE cfg) (trace_bits s) out
      = map_option (\<lambda>(mem, ls). (mem, out @ ls)) (show_tuples (cfg_MAP_SIZE cfg) (trace_bits s) [])"
    for out by (rule show_tuples_prefix)
  show ?thesis
    using assms
    by (cases "show_tuples (cfg_MAP_SIZE cfg) (trace_bits s) []")
      (auto simp add: main_report_def Let_def proc_defs p [of "printed s"]
        p [of "printed s @ [Output_ends]"] p [of "printed s @ [Tuples_recorded]"]
        p [of "printed s @ [Output_ends, Tuples_recorded]"] tuple_report_append)
qed

lemma main_tuple_report:
  "tuple_report (printed (snd (main cfg e w))) = expected_report cfg e w"
proof (cases "handshake_completed w")
  case False
  then show ?thesis using main_no_handshake [of w cfg e] by (simp add: expected_report_def)
next
  case True
  then obtain s where s: "trace_bits s = raw_bitmap cfg w" "tuple_report (printed s) = []"
      "main cfg e w = main_report cfg e s"
    using main_after_handshake [of w cfg e] by blast
  show ?thesis
  proof (cases "count_bits e (cfg_MAP_SIZE cfg) (raw_bitmap cfg w)")
    case None
    then show ?thesis
      using True s main_report_faulted [of e cfg s] by (simp add: expected_report_def)
  next
    case (Some n)
    show ?thesis
    proof (cases "n = 0")
      case z: True
      then show ?thesis
        using True s Some main_report_empty [of e cfg s] by (simp add: expected_report_def)
    next
      case nz: False
      have c: "count_bits e (cfg_MAP_SIZE cfg) (trace_bits s) = Some n" using Some s by simp
      show ?thesis
        using True s Some nz main_report_shown [OF c nz]
        by (cases "show_tuples (cfg_MAP_SIZE cfg) (raw_bitmap cfg w) []")
          (auto simp add: expected_report_def)
    qed
  qed
qed

lemma expected_report_environ:
  "expected_report cfg e (w\<lparr>environ := env\<rparr>) = expected_report cfg e w"
proof -
  have "handshake_completed (w\<lparr>environ := env\<rparr>) = handshake_completed w"
    by (simp add: handshake_completed_def startup_ok_def reads_ok_def st_read_def)
  moreover have "raw_bitmap cfg (w\<lparr>environ := env\<rparr>) = raw_bitmap cfg w"
    by (simp add: raw_bitmap_def)
  ultimately show ?thesis by (simp only: expected_report_def)
qed

lemma main_handshake_failed:
  assumes "startup_ok w" and "\<not> (write_ret w = 4 \<and> reads_ok w)"
  shows "fst (main cfg e w) = Exited 1
    \<and> diagnostics (snd (main cfg e w)) = [''No instrumentation detected or fork server fault'']"
proof -
  from assms have c: "2 \<le> length (argv w)" "0 \<le> shmget_ret w" "shmat_ret w \<noteq> Null_addr"
    "pipe_st_ret w = 0" "pipe_ctl_ret w = 0" "0 < fork_ret w"
    by (simp_all add: startup_ok_def)
  obtain s1 where s1: "setup_shm cfg w (main_banner w) = Inr s1"
    using c setup_shm_Inl [of cfg w "main_banner w"]
    by (cases "setup_shm cfg w (main_banner w)") auto
  note f1 = setup_shm_Inr [OF s1]
  obtain s' where s': "run_target cfg w (tl (argv w)) (main_before_run w s1) = Inl (Exited 1, s')"
    "diagnostics s' = diagnostics (main_before_run w s1)
       @ [''No instrumentation detected or fork server fault'']"
    using run_target_parent_fail [OF c(4) c(5) c(6) assms(2)] by blast
  have "diagnostics (main_before_run w s1) = []"
    using f1 main_before_run_fields [of w s1] main_banner_fields [of w] by simp
  moreover have "main cfg e w = (Exited 1, s')"
    using c(1) by (simp add: main_stages s1 s')
  ultimately show ?thesis using s' by simp
qed

lemma main_exit_zero_iff:
  assumes "4 dvd unat (cfg_MAP_SIZE cfg)" and "unat (cfg_MAP_SIZE cfg) < 2 ^ 29"
  shows "fst (main cfg e w) = Exited 0
    \<longleftrightarrow> handshake_completed w \<and> (\<exists>b\<in>set (raw_bitmap cfg w). b \<noteq> 0)"
proof (cases "handshake_completed w")
  case False
  then show ?thesis using main_no_handshake [of w cfg e] by simp
next
  case True
  then obtain s where s: "trace_bits s = raw_bitmap cfg w" "main cfg e w = main_report cfg e s"
    using main_after_handshake [of w cfg e] by blast
  show ?thesis
  proof (cases "shmat_ret w = Attached")
    case att: True
    then have len: "length (raw_bitmap cfg w) = unat (cfg_MAP_SIZE cfg)"
      by (simp add: raw_bitmap_def)
    let ?n = "naive_count_bits (raw_bitmap cfg w)"
    have c: "count_bits e (cfg_MAP_SIZE cfg) (trace_bits s) = Some (of_nat ?n)"
      using count_bits_eq [OF assms(1) len] s by simp
    have "?n \<le> 8 * length (raw_bitmap cfg w)" by (rule naive_count_bits_le)
    then have "?n < 2 ^ 32" using len assms(2) by simp
    then have z: "(of_nat ?n :: u32) = 0 \<longleftrightarrow> (\<forall>b\<in>set (raw_bitmap cfg w). b = 0)"
      by (simp add: of_nat_u32_zero_iff naive_count_bits_zero_iff)
    show ?thesis
    proof (cases "\<forall>b\<in>set (raw_bitmap cfg w). b = 0")
      case all0: True
      then have "count_bits e (cfg_MAP_SIZE cfg) (trace_bits s) = Some 0" using c z by simp
      then have "fst (main cfg e w) = Exited 1"
        using main_report_empty [of e cfg s] s by simp
      then show ?thesis using all0 by simp
    next
      case some: False
      then have nz: "(of_nat ?n :: u32) \<noteq> 0" using z by simp
      have "show_tuples (cfg_MAP_SIZE cfg) (trace_bits s) [] \<noteq> None"
        using show_tuples_eq [OF len, of "[]"] s by simp
      then have "fst (main_report cfg e s) = Exited 0"
        using main_report_shown [OF c nz] by (auto split: option.splits)
      then show ?thesis using True some s by auto
    qed
  next
    case False
    then have nil: "raw_bitmap cfg w = []" by (simp add: raw_bitmap_def)
    have "fst (main_report cfg e s) \<noteq> Exited 0"
      using count_bits_nil [of e "cfg_MAP_SIZE cfg"] s nil
        main_report_faulted [of e cfg s] main_report_empty [of e cfg s]
      by auto
    then show ?thesis using s nil by simp
  qed
qed

lemma main_no_data:
  assumes "handshake_completed w"
    and "count_bits e (cfg_MAP_SIZE cfg) (raw_bitmap cfg w) = Some 0"
  shows "fst (main cfg e w) = Exited 1
    \<and> diagnostics (snd (main cfg e w)) = [''No instrumentation data recorded'']"
proof -
  obtain s where s: "trace_bits s = raw_bitmap cfg w" "diagnostics s = []"
      "main cfg e w = main_report cfg e s"
    using main_after_handshake [OF assms(1), of cfg e] by blast
  then show ?thesis using main_report_empty [of e cfg s] assms(2) by simp
qed

lemma example_raw_bitmap:
  "raw_bitmap example_config example_world = [0, 0, 5, 0, 0, 0, 1, 0]"
  by code_simp

lemma example_main:
  "main example_config Little_endian example_world =
     (Exited 0,
      \<lparr>forksrv_pid = 100, child_pid = 101, trace_bits = [0, 0, 8, 0, 0, 0, 1, 0], shm_id = 5,
       sink_output = 0, be_quiet = 0,
       printed = [Version_banner, Output_begins, Output_ends, Tuples_recorded,
                  Tuple_line (''00002/8'' @ [CHR 0x0A]), Tuple_line (''00006/1'' @ [CHR 0x0A])],
       diagnostics = [],
       calls = [Shmget, Atexit_remove_shm, Setenv ''__AFL_SHM_ID'' ''5'', Shmat, Pipe, Pipe,
                Fork, Close, Close, Write_ctl, Read_st, Read_st, Read_st, Shmctl_rmid],
       at_exit = True\<rparr>)"
  by code_simp

lemma example_empty_count:
  "count_bits Little_endian (cfg_MAP_SIZE example_config)
     (raw_bitmap example_config (example_world\<lparr>hits := (\<lambda>i. 0)\<rparr>)) = Some 0"
  by code_simp

text \<open>
  C6. The process exits with status 0 exactly when the run has completed the handshake
  and the raw bitmap has a byte that is not zero. When \<^verbatim>\<open>count_bits\<close> returns 0 after a
  completed handshake, the tool ends with the fatal error "No instrumentation data
  recorded" and a non-zero status; a failed handshake and a missing argument end it with
  a non-zero status too.
\<close>

theorem main_exit_status:
  assumes "4 dvd unat (cfg_MAP_SIZE cfg)" and "unat (cfg_MAP_SIZE cfg) < 2 ^ 29"
  shows "(fst (main cfg e w) = Exited 0
            \<longleftrightarrow> handshake_completed w \<and> (\<exists>b\<in>set (raw_bitmap cfg w). b \<noteq> 0))
    \<and> (handshake_completed w \<and> count_bits e (cfg_MAP_SIZE cfg) (raw_bitmap cfg w) = Some 0 \<longrightarrow>
          (\<exists>k. fst (main cfg e w) = Exited k \<and> k \<noteq> 0)
          \<and> diagnostics (snd (main cfg e w)) = [''No instrumentation data recorded''])
    \<and> (startup_ok w \<and> \<not> (write_ret w = 4 \<and> reads_ok w) \<longrightarrow>
          (\<exists>k. fst (main cfg e w) = Exited k \<and> k \<noteq> 0)
          \<and> diagnostics (snd (main cfg e w))
              = [''No instrumentation detected or fork server fault''])
    \<and> (length (argv w) < 2 \<longrightarrow> (\<exists>k. fst (main cfg e w) = Exited k \<and> k \<noteq> 0))"
proof -
  have A: "fst (main cfg e w) = Exited 0
            \<longleftrightarrow> handshake_completed w \<and> (\<exists>b\<in>set (raw_bitmap cfg w). b \<noteq> 0)"
    using assms by (rule main_exit_zero_iff)
  have B: "handshake_completed w \<and> count_bits e (cfg_MAP_SIZE cfg) (raw_bitmap cfg w) = Some 0 \<longrightarrow>
          (\<exists>k. fst (main cfg e w) = Exited k \<and> k \<noteq> 0)
          \<and> diagnostics (snd (main cfg e w)) = [''No instrumentation data recorded'']"
    using main_no_data [of w e cfg] by simp
  have C: "startup_ok w \<and> \<not> (write_ret w = 4 \<and> reads_ok w) \<longrightarrow>
          (\<exists>k. fst (main cfg e w) = Exited k \<and> k \<noteq> 0)
          \<and> diagnostics (snd (main cfg e w))
              = [''No instrumentation detected or fork server fault'']"
    using main_handshake_failed [of w cfg e] by simp
  have D: "length (argv w) < 2 \<longrightarrow> (\<exists>k. fst (main cfg e w) = Exited k \<and> k \<noteq> 0)"
    by (simp add: main_stages usage_def proc_defs)
  show ?thesis by (intro conjI A B C D)
qed

theorem main_exit_status_witness:
  "4 dvd unat (cfg_MAP_SIZE example_config) \<and> unat (cfg_MAP_SIZE example_config) < 2 ^ 29
   \<and> handshake_completed example_world
   \<and> (\<exists>b\<in>set (raw_bitmap example_config example_world). b \<noteq> 0)
   \<and> fst (main example_config Little_endian example_world) = Exited 0
   \<and> fst (main example_config Little_endian (example_world\<lparr>hits := (\<lambda>i. 0)\<rparr>)) \<noteq> Exited 0
   \<and> diagnostics (snd (main example_config Little_endian (example_world\<lparr>hits := (\<lambda>i. 0)\<rparr>)))
       = [''No instrumentation data recorded'']
   \<and> fst (main example_config Little_endian (example_world\<lparr>st_reads := [(4, 0), (4, 101)]\<rparr>))
       \<noteq> Exited 0
   \<and> diagnostics (snd (main example_config Little_endian
         (example_world\<lparr>st_reads := [(4, 0), (4, 101)]\<rparr>)))
       = [''No instrumentation detected or fork server fault'']
   \<and> fst (main example_config Little_endian (example_world\<lparr>argv := [''afl-showmap'']\<rparr>))
       \<noteq> Exited 0"
proof -
  let ?w1 = "example_world\<lparr>hits := (\<lambda>i. 0)\<rparr>"
  let ?w2 = "example_world\<lparr>st_reads := [(4, 0), (4, 101)]\<rparr>"
  let ?w3 = "example_world\<lparr>argv := [''afl-showmap'']\<rparr>"
  have h1: "4 dvd unat (cfg_MAP_SIZE example_config)" by (simp add: example_config_def)
  have h2: "unat (cfg_MAP_SIZE example_config) < 2 ^ 29" by (simp add: example_config_def)
  have s: "startup_ok example_world" "startup_ok ?w1" "startup_ok ?w2"
    by (simp_all add: startup_ok_def example_world_def)
  have r: "reads_ok example_world" "reads_ok ?w1" "\<not> reads_ok ?w2"
    by (simp_all add: reads_ok_def st_read_def example_world_def)
  have wr: "write_ret example_world = 4" "write_ret ?w1 = 4"
    by (simp_all add: example_world_def)
  have hc: "handshake_completed example_world" "handshake_completed ?w1"
    using s r wr by (simp_all add: handshake_completed_def)
  have nz: "\<exists>b\<in>set (raw_bitmap example_config example_world). b \<noteq> 0"
    by (simp add: example_raw_bitmap)
  have c0: "count_bits Little_endian (cfg_MAP_SIZE example_config) (raw_bitmap example_config ?w1)
      = Some 0"
    by (rule example_empty_count)
  have a3: "length (argv ?w3) < 2" by simp
  note T0 = main_exit_status [OF h1 h2, of Little_endian example_world]
  note T1 = main_exit_status [OF h1 h2, of Little_endian ?w1]
  note T2 = main_exit_status [OF h1 h2, of Little_endian ?w2]
  note T3 = main_exit_status [OF h1 h2, of Little_endian ?w3]
  have e0: "fst (main example_config Little_endian example_world) = Exited 0"
    using conjunct1 [OF T0] hc(1) nz by simp
  have e1: "(\<exists>k. fst (main example_config Little_endian ?w1) = Exited k \<and> k \<noteq> 0)
      \<and> diagnostics (snd (main example_config Little_endian ?w1))
          = [''No instrumentation data recorded'']"
    by (rule mp [OF conjunct1 [OF conjunct2 [OF T1]]]) (simp only: hc(2) c0 simp_thms)
  have e2: "(\<exists>k. fst (main example_config Little_endian ?w2) = Exited k \<and> k \<noteq> 0)
      \<and> diagnostics (snd (main example_config Little_endian ?w2))
          = [''No instrumentation detected or fork server fault'']"
    by (rule mp [OF conjunct1 [OF conjunct2 [OF conjunct2 [OF T2]]]]) (simp only: s(3) r(3) simp_thms)
  have e3: "\<exists>k. fst (main example_config Little_endian ?w3) = Exited k \<and> k \<noteq> 0"
    by (rule mp [OF conjunct2 [OF conjunct2 [OF conjunct2 [OF T3]]]]) (rule a3)
  have n1: "fst (main example_config Little_endian ?w1) \<noteq> Exited 0" using e1 by auto
  have n2: "fst (main example_config Little_endian ?w2) \<noteq> Exited 0" using e2 by auto
  have n3: "fst (main example_config Little_endian ?w3) \<noteq> Exited 0" using e3 by auto
  show ?thesis
    by (intro conjI h1 h2 hc(1) nz e0 n1 n2 n3 conjunct2 [OF e1] conjunct2 [OF e2])
qed

text \<open>
  C7. In the parent, after the trigger has been written, \<^verbatim>\<open>run_target\<close> reads three
  4-byte fields from the status pipe, in the order acknowledgment, pid of the worker, exit
  status. Where a read delivers another number of bytes than 4, or the pid is not positive,
  it ends the process with the one fatal error of the handshake, after that read: there
  is one write, there are at most three reads, and none is repeated.
\<close>

theorem run_target_handshake:
  assumes "pipe_st_ret w = 0" and "pipe_ctl_ret w = 0" and "0 < fork_ret w"
    and "write_ret w = 4"
  shows "(reads_ok w \<longleftrightarrow> fst (st_read w 0) = 4 \<and> fst (st_read w 1) = 4
            \<and> 0 < sint (snd (st_read w 1)) \<and> fst (st_read w 2) = 4)
    \<and> (reads_ok w \<longrightarrow>
         (\<exists>s'. run_target cfg w args s = Inr s'
            \<and> calls s' = calls s @ [Pipe, Pipe, Fork, Close, Close, Write_ctl,
                                    Read_st, Read_st, Read_st]
            \<and> child_pid s' = snd (st_read w 1) \<and> diagnostics s' = diagnostics s))
    \<and> (\<not> reads_ok w \<longrightarrow>
         (\<exists>k s'. run_target cfg w args s = Inl (Exited k, s') \<and> k \<noteq> 0
            \<and> diagnostics s'
                = diagnostics s @ [''No instrumentation detected or fork server fault'']
            \<and> calls s' = calls s @ [Pipe, Pipe, Fork, Close, Close, Write_ctl]
                 @ replicate (reads_made w) Read_st
                 @ (if at_exit s then [Shmctl_rmid] else [])))
    \<and> 1 \<le> reads_made w \<and> reads_made w \<le> 3
    \<and> (reads_made w = 1 \<longleftrightarrow> fst (st_read w 0) \<noteq> 4)
    \<and> (reads_made w = 2 \<longleftrightarrow> fst (st_read w 0) = 4
          \<and> (fst (st_read w 1) \<noteq> 4 \<or> sint (snd (st_read w 1)) \<le> 0))"
proof -
  have A: "reads_ok w \<longleftrightarrow> fst (st_read w 0) = 4 \<and> fst (st_read w 1) = 4
            \<and> 0 < sint (snd (st_read w 1)) \<and> fst (st_read w 2) = 4"
    by (simp add: reads_ok_def)
  have B: "reads_ok w \<longrightarrow>
         (\<exists>s'. run_target cfg w args s = Inr s'
            \<and> calls s' = calls s @ [Pipe, Pipe, Fork, Close, Close, Write_ctl,
                                    Read_st, Read_st, Read_st]
            \<and> child_pid s' = snd (st_read w 1) \<and> diagnostics s' = diagnostics s)"
    using run_target_parent_ok [OF assms, of cfg args s] by blast
  have C: "\<not> reads_ok w \<longrightarrow>
         (\<exists>k s'. run_target cfg w args s = Inl (Exited k, s') \<and> k \<noteq> 0
            \<and> diagnostics s'
                = diagnostics s @ [''No instrumentation detected or fork server fault'']
            \<and> calls s' = calls s @ [Pipe, Pipe, Fork, Close, Close, Write_ctl]
                 @ replicate (reads_made w) Read_st
                 @ (if at_exit s then [Shmctl_rmid] else []))"
  proof
    assume "\<not> reads_ok w"
    then have "\<not> (write_ret w = 4 \<and> reads_ok w)" by simp
    from run_target_parent_fail [OF assms(1) assms(2) assms(3) this, of cfg args s]
    obtain s' where "run_target cfg w args s = Inl (Exited 1, s')"
      "diagnostics s' = diagnostics s @ [''No instrumentation detected or fork server fault'']"
      "calls s' = calls s @ [Pipe, Pipe, Fork, Close, Close, Write_ctl]
         @ replicate (if write_ret w = 4 then reads_made w else 0) Read_st
         @ (if at_exit s then [Shmctl_rmid] else [])"
      by blast
    then show "\<exists>k s'. run_target cfg w args s = Inl (Exited k, s') \<and> k \<noteq> 0
            \<and> diagnostics s'
                = diagnostics s @ [''No instrumentation detected or fork server fault'']
            \<and> calls s' = calls s @ [Pipe, Pipe, Fork, Close, Close, Write_ctl]
                 @ replicate (reads_made w) Read_st
                 @ (if at_exit s then [Shmctl_rmid] else [])"
      using assms(4) by (intro exI [of _ 1] exI [of _ s']) simp
  qed
  have D: "1 \<le> reads_made w" "reads_made w \<le> 3"
    "reads_made w = 1 \<longleftrightarrow> fst (st_read w 0) \<noteq> 4"
    "reads_made w = 2 \<longleftrightarrow> fst (st_read w 0) = 4
          \<and> (fst (st_read w 1) \<noteq> 4 \<or> sint (snd (st_read w 1)) \<le> 0)"
    by (simp_all add: reads_made_def)
  show ?thesis by (intro conjI A B C D)
qed

theorem run_target_handshake_witness:
  "pipe_st_ret example_world = 0 \<and> pipe_ctl_ret example_world = 0 \<and> 0 < fork_ret example_world
   \<and> write_ret example_world = 4 \<and> reads_ok example_world
   \<and> (\<exists>s'. run_target example_config example_world [''./target''] initial = Inr s'
         \<and> calls s' = [Pipe, Pipe, Fork, Close, Close, Write_ctl, Read_st, Read_st, Read_st]
         \<and> child_pid s' = 101)
   \<and> \<not> reads_ok (example_world\<lparr>st_reads := [(4, 0), (2, 0)]\<rparr>)
   \<and> (\<exists>k s'. run_target example_config (example_world\<lparr>st_reads := [(4, 0), (2, 0)]\<rparr>)
                 [''./target''] initial = Inl (Exited k, s') \<and> k \<noteq> 0
         \<and> diagnostics s' = [''No instrumentation detected or fork server fault'']
         \<and> calls s' = [Pipe, Pipe, Fork, Close, Close, Write_ctl, Read_st, Read_st])"
proof -
  let ?w2 = "example_world\<lparr>st_reads := [(4, 0), (2, 0)]\<rparr>"
  have h: "pipe_st_ret example_world = 0" "pipe_ctl_ret example_world = 0"
    "0 < fork_ret example_world" "write_ret example_world = 4"
    by (simp_all add: example_world_def)
  have h2: "pipe_st_ret ?w2 = 0" "pipe_ctl_ret ?w2 = 0" "0 < fork_ret ?w2" "write_ret ?w2 = 4"
    by (simp_all add: example_world_def)
  have r: "reads_ok example_world" "\<not> reads_ok ?w2"
    by (simp_all add: reads_ok_def st_read_def example_world_def)
  have p: "snd (st_read example_world 1) = 101"
    by (simp add: st_read_def example_world_def)
  have m: "reads_made ?w2 = 2"
    by (simp add: reads_made_def st_read_def example_world_def)
  have i: "calls initial = []" "diagnostics initial = []" "\<not> at_exit initial"
    by (simp_all add: initial_def)
  show ?thesis
    using run_target_handshake [OF h, of example_config "[''./target'']" initial]
      run_target_handshake [OF h2, of example_config "[''./target'']" initial]
      h r p m i
    by (auto simp add: replicate_small)
qed

text \<open>
  C8. Without a target argument (\<^verbatim>\<open>argc < 2\<close>) the tool prints the usage text and exits
  with status 1. It has made no system call then: \<^verbatim>\<open>setup_shm\<close> has not run, no region
  has been requested and none is attached.
\<close>

theorem usage_before_setup_shm:
  assumes "length (argv w) < 2"
  shows "fst (main cfg e w) = Exited 1
    \<and> last (printed (snd (main cfg e w))) = Usage_text (arg0 (argv w))
    \<and> calls (snd (main cfg e w)) = []
    \<and> Shmget \<notin> set (calls (snd (main cfg e w)))
    \<and> trace_bits (snd (main cfg e w)) = []
    \<and> \<not> at_exit (snd (main cfg e w))"
  using assms
  by (simp add: main_def Let_def usage_def proc_defs initial_def)

theorem usage_before_setup_shm_witness:
  "length (argv (example_world\<lparr>argv := [''afl-showmap'']\<rparr>)) < 2
   \<and> main example_config Little_endian (example_world\<lparr>argv := [''afl-showmap'']\<rparr>)
     = (Exited 1, initial\<lparr>printed := [Version_banner, Usage_text ''afl-showmap'']\<rparr>)"
proof -
  let ?w = "example_world\<lparr>argv := [''afl-showmap'']\<rparr>"
  have h: "length (argv ?w) < 2" by simp
  show ?thesis
    using usage_before_setup_shm [OF h, of example_config Little_endian] h
    by (simp add: main_def Let_def usage_def proc_defs initial_def example_world_def arg0_def)
qed

text \<open>
  C9. Two runs that differ only in the variables \<^verbatim>\<open>AFL_QUIET\<close> and \<^verbatim>\<open>AFL_SINK_OUTPUT\<close> of
  the environment, with the same answers of the system and the same bitmap, print the
  same tuple lines: the variables change the banners only.
\<close>

theorem tuple_report_independent_of_toggles:
  "tuple_report (printed (snd (main cfg e
      (w\<lparr>environ := (environ w)(''AFL_QUIET'' := quiet, ''AFL_SINK_OUTPUT'' := sink)\<rparr>))))
   = tuple_report (printed (snd (main cfg e w)))"
  by (simp only: main_tuple_report expected_report_environ)

theorem tuple_report_independent_of_toggles_witness:
  "tuple_report (printed (snd (main example_config Little_endian
      (example_world\<lparr>environ := (environ example_world)
         (''AFL_QUIET'' := Some ''1'', ''AFL_SINK_OUTPUT'' := Some ''1'')\<rparr>))))
     = [''00002/8'' @ [CHR 0x0A], ''00006/1'' @ [CHR 0x0A]]
   \<and> tuple_report (printed (snd (main example_config Little_endian example_world)))
     = [''00002/8'' @ [CHR 0x0A], ''00006/1'' @ [CHR 0x0A]]"
  using tuple_report_independent_of_toggles
    [of example_config Little_endian example_world "Some ''1''" "Some ''1''"]
  by (simp add: example_main)

end
